theory Spec2Isabelle
  imports Complex_Main
begin

section \<open>Python primitives used by the engine\<close>

text \<open>
  Floats are modelled as reals: rounding and the special values are not modelled, an
  overflow that raises is, and so is the underflow to zero of a square. Python integers
  are \<open>int\<close>. Every operation of
  \<^verbatim>\<open>evol_strat.py\<close> that can raise is a branch returning \<open>Inl\<close>. The fitness
  evaluator is a parameter and is taken to return a value on every gene vector.
\<close>

datatype error = ValueError | IndexError | ZeroDivisionError | OverflowError

text \<open>The largest finite double.\<close>

definition float_max :: real where
  "float_max = (2 - 1 / 2 ^ 52) * 2 ^ 1023"

text \<open>\<^verbatim>\<open>math.exp(x)\<close>: raises OverflowError when the result is out of range.\<close>

definition py_exp :: "real \<Rightarrow> error + real" where
  "py_exp x = (if exp x > float_max then Inl OverflowError else Inr (exp x))"

text \<open>Half the smallest positive double: a result this small is returned as \<open>0.0\<close>.\<close>

definition float_tiny :: real where
  "float_tiny = 1 / 2 ^ 1075"

text \<open>
  \<^verbatim>\<open>x ** 2\<close> on a float: raises OverflowError when the result is out of range, and
  silently gives \<open>0.0\<close> when it underflows.
\<close>

definition py_sq :: "real \<Rightarrow> error + real" where
  "py_sq x =
     (if x\<^sup>2 > float_max then Inl OverflowError
      else if x\<^sup>2 \<le> float_tiny then Inr 0
      else Inr (x\<^sup>2))"

text \<open>\<^verbatim>\<open>range(n)\<close>: empty when \<open>n \<le> 0\<close>.\<close>

definition py_range :: "int \<Rightarrow> nat list" where
  "py_range n = [0..<nat n]"

text \<open>\<^verbatim>\<open>xs[:n]\<close>: a negative bound counts from the end of the list.\<close>

definition py_slice_to :: "'a list \<Rightarrow> int \<Rightarrow> 'a list" where
  "py_slice_to xs n =
     (if n < 0 then take (nat (int (length xs) + n)) xs else take (nat n) xs)"

text \<open>\<^verbatim>\<open>xs[i]\<close>: negative positions wrap once, anything else out of range raises.\<close>

definition py_index :: "'a list \<Rightarrow> int \<Rightarrow> error + 'a" where
  "py_index xs i =
     (if 0 \<le> i \<and> i < int (length xs) then Inr (xs ! nat i)
      else if i < 0 \<and> 0 \<le> int (length xs) + i then Inr (xs ! nat (int (length xs) + i))
      else Inl IndexError)"

text \<open>\<^verbatim>\<open>max(xs)\<close> on a list of floats: raises on the empty list.\<close>

definition py_max :: "real list \<Rightarrow> error + real" where
  "py_max xs =
     (case xs of
        [] \<Rightarrow> Inl ValueError
      | x # rest \<Rightarrow> Inr (fold (\<lambda>v best. if v > best then v else best) rest x))"

text \<open>
  \<^verbatim>\<open>max(cs, key=f)\<close>: the key is computed for each candidate in turn, and a later
  candidate replaces the current best only when its key is strictly greater.
\<close>

fun max_key_loop :: "(nat \<Rightarrow> error + real) \<Rightarrow> nat \<Rightarrow> real \<Rightarrow> nat list \<Rightarrow> error + nat" where
  "max_key_loop key best best_val [] = Inr best"
| "max_key_loop key best best_val (c # cs) =
     (case key c of
        Inl e \<Rightarrow> Inl e
      | Inr v \<Rightarrow>
          if v > best_val then max_key_loop key c v cs
          else max_key_loop key best best_val cs)"

definition py_max_key :: "(nat \<Rightarrow> error + real) \<Rightarrow> nat list \<Rightarrow> error + nat" where
  "py_max_key key cs =
     (case cs of
        [] \<Rightarrow> Inl ValueError
      | c # rest \<Rightarrow>
          (case key c of
             Inl e \<Rightarrow> Inl e
           | Inr v \<Rightarrow> max_key_loop key c v rest))"

text \<open>
  \<^verbatim>\<open>xs.sort(key=k, reverse=True)\<close>: Python's sort is stable, also with
  \<^verbatim>\<open>reverse=True\<close>; it is the stable insertion sort on the negated key.
\<close>

definition py_sort_desc :: "('a \<Rightarrow> real) \<Rightarrow> 'a list \<Rightarrow> 'a list" where
  "py_sort_desc k xs = sort_key (\<lambda>x. - k x) xs"

section \<open>The random source\<close>

text \<open>
  \<^verbatim>\<open>random.Random\<close> belongs to the standard library, so the generator is a
  parameter: a state of type \<open>'g\<close> and the three methods the engine calls, each
  returning its value and the next state. \<open>rng_sample ops n k\<close> stands for
  \<^verbatim>\<open>sample(range(n), k)\<close> on a legal request.
\<close>

record 'g rng_ops =
  rng_uniform :: "real \<Rightarrow> real \<Rightarrow> 'g \<Rightarrow> real \<times> 'g"
  rng_sample :: "nat \<Rightarrow> nat \<Rightarrow> 'g \<Rightarrow> nat list \<times> 'g"
  rng_gauss :: "real \<Rightarrow> real \<Rightarrow> 'g \<Rightarrow> real \<times> 'g"

text \<open>
  \<^verbatim>\<open>rng.sample(range(mu), k)\<close>: the library raises ValueError when the sample is
  larger than the population.
\<close>

definition py_sample :: "'g rng_ops \<Rightarrow> int \<Rightarrow> nat \<Rightarrow> 'g \<Rightarrow> error + (nat list \<times> 'g)" where
  "py_sample ops mu k g =
     (if k \<le> length (py_range mu) then Inr (rng_sample ops (length (py_range mu)) k g)
      else Inl ValueError)"

text \<open>
  The library's contract for \<^verbatim>\<open>sample\<close>: \<open>k\<close> pairwise distinct elements of the
  population.
\<close>

definition sample_ok :: "'g rng_ops \<Rightarrow> bool" where
  "sample_ok ops \<longleftrightarrow>
     (\<forall>n k g. k \<le> n \<longrightarrow>
        length (fst (rng_sample ops n k g)) = k \<and>
        distinct (fst (rng_sample ops n k g)) \<and>
        set (fst (rng_sample ops n k g)) \<subseteq> {..<n})"

section \<open>Population initialisation\<close>

fun init_member :: "'g rng_ops \<Rightarrow> real \<times> real \<Rightarrow> nat \<Rightarrow> real list \<Rightarrow> 'g \<Rightarrow> real list \<times> 'g" where
  "init_member ops mem_range 0 member g = (member, g)"
| "init_member ops mem_range (Suc n) member g =
     (case rng_uniform ops (fst mem_range) (snd mem_range) g of
        (gene, g') \<Rightarrow> init_member ops mem_range n (member @ [gene]) g')"

fun init_members ::
  "'g rng_ops \<Rightarrow> int \<Rightarrow> real \<times> real \<Rightarrow> real \<Rightarrow> nat \<Rightarrow> real list list \<Rightarrow> 'g \<Rightarrow> real list list \<times> 'g" where
  "init_members ops mem_size mem_range sigma 0 population g = (population, g)"
| "init_members ops mem_size mem_range sigma (Suc n) population g =
     (case init_member ops mem_range (length (py_range mem_size)) [] g of
        (member, g') \<Rightarrow>
          init_members ops mem_size mem_range sigma n (population @ [member @ [sigma]]) g')"

definition init_population ::
  "int \<Rightarrow> int \<Rightarrow> real \<times> real \<Rightarrow> real \<Rightarrow> 'g rng_ops \<Rightarrow> 'g \<Rightarrow> real list list \<times> 'g" where
  "init_population pop_size mem_size mem_range sigma ops g =
     init_members ops mem_size mem_range sigma (length (py_range pop_size)) [] g"

section \<open>One generation\<close>

text \<open>Lines 27-28: the tournament between two sampled parents.\<close>

definition tournament :: "'g rng_ops \<Rightarrow> int \<Rightarrow> real list \<Rightarrow> 'g \<Rightarrow> error + (nat \<times> 'g)" where
  "tournament ops mu fitnesses g =
     (case py_sample ops mu 2 g of
        Inl e \<Rightarrow> Inl e
      | Inr (candidates, g') \<Rightarrow>
          (case py_max_key (\<lambda>i. py_index fitnesses (int i)) candidates of
             Inl e \<Rightarrow> Inl e
           | Inr parent_idx \<Rightarrow> Inr (parent_idx, g')))"

text \<open>Lines 34-37: one Gaussian draw per gene, appended to the child in order.\<close>

fun mutate_genes :: "'g rng_ops \<Rightarrow> real \<Rightarrow> real list \<Rightarrow> real list \<Rightarrow> 'g \<Rightarrow> real list \<times> 'g" where
  "mutate_genes ops sigma_val [] child g = (child, g)"
| "mutate_genes ops sigma_val (gene # genes) child g =
     (case rng_gauss ops 0 sigma_val g of
        (mutation, g') \<Rightarrow> mutate_genes ops sigma_val genes (child @ [gene + mutation]) g')"

text \<open>Lines 31-41: the child of one parent.\<close>

definition make_child :: "'g rng_ops \<Rightarrow> int \<Rightarrow> real \<Rightarrow> real list \<Rightarrow> 'g \<Rightarrow> error + (real list \<times> 'g)" where
  "make_child ops mem_size tau parent g =
     (case py_index parent mem_size of
        Inl e \<Rightarrow> Inl e
      | Inr sigma_val \<Rightarrow>
          (case mutate_genes ops sigma_val (py_slice_to parent mem_size) [] g of
             (child, g1) \<Rightarrow>
               (case rng_gauss ops 0 1 g1 of
                  (sigma_mutation, g2) \<Rightarrow>
                    (case py_exp (tau * sigma_mutation) of
                       Inl e \<Rightarrow> Inl e
                     | Inr factor \<Rightarrow> Inr (child @ [sigma_val * factor], g2)))))"

text \<open>Lines 24-42: the loop over \<^verbatim>\<open>range(lambda_)\<close>.\<close>

fun produce_offspring ::
  "'g rng_ops \<Rightarrow> int \<Rightarrow> int \<Rightarrow> real \<Rightarrow> real list list \<Rightarrow> real list \<Rightarrow> nat \<Rightarrow> real list list \<Rightarrow> 'g
     \<Rightarrow> error + (real list list \<times> 'g)" where
  "produce_offspring ops mu mem_size tau population fitnesses 0 offspring g = Inr (offspring, g)"
| "produce_offspring ops mu mem_size tau population fitnesses (Suc n) offspring g =
     (case tournament ops mu fitnesses g of
        Inl e \<Rightarrow> Inl e
      | Inr (parent_idx, g1) \<Rightarrow>
          (case py_index population (int parent_idx) of
             Inl e \<Rightarrow> Inl e
           | Inr parent \<Rightarrow>
               (case make_child ops mem_size tau parent g1 of
                  Inl e \<Rightarrow> Inl e
                | Inr (child, g2) \<Rightarrow>
                    produce_offspring ops mu mem_size tau population fitnesses n
                      (offspring @ [child]) g2)))"

text \<open>Line 52: the squared gene differences of parents \<open>i\<close> and \<open>j\<close>, then their distance.\<close>

fun sq_diffs :: "real list list \<Rightarrow> nat \<Rightarrow> nat \<Rightarrow> nat list \<Rightarrow> error + real list" where
  "sq_diffs population i j [] = Inr []"
| "sq_diffs population i j (k # ks) =
     (case py_index population (int i) of
        Inl e \<Rightarrow> Inl e
      | Inr a \<Rightarrow>
     (case py_index a (int k) of
        Inl e \<Rightarrow> Inl e
      | Inr x \<Rightarrow>
     (case py_index population (int j) of
        Inl e \<Rightarrow> Inl e
      | Inr b \<Rightarrow>
     (case py_index b (int k) of
        Inl e \<Rightarrow> Inl e
      | Inr y \<Rightarrow>
     (case py_sq (x - y) of
        Inl e \<Rightarrow> Inl e
      | Inr d \<Rightarrow>
     (case sq_diffs population i j ks of
        Inl e \<Rightarrow> Inl e
      | Inr ds \<Rightarrow> Inr (d # ds)))))))"

definition gene_dist :: "real list list \<Rightarrow> int \<Rightarrow> nat \<Rightarrow> nat \<Rightarrow> error + real" where
  "gene_dist population mem_size i j =
     (case sq_diffs population i j (py_range mem_size) of
        Inl e \<Rightarrow> Inl e
      | Inr ds \<Rightarrow> Inr (sqrt (sum_list ds)))"

text \<open>Lines 49-54: the two nested loops keeping the largest distance seen.\<close>

fun diversity_inner :: "real list list \<Rightarrow> int \<Rightarrow> nat \<Rightarrow> nat list \<Rightarrow> real \<Rightarrow> error + real" where
  "diversity_inner population mem_size i [] diversity = Inr diversity"
| "diversity_inner population mem_size i (j # js) diversity =
     (case gene_dist population mem_size i j of
        Inl e \<Rightarrow> Inl e
      | Inr distance \<Rightarrow>
          diversity_inner population mem_size i js
            (if distance > diversity then distance else diversity))"

fun diversity_outer :: "real list list \<Rightarrow> int \<Rightarrow> int \<Rightarrow> nat list \<Rightarrow> real \<Rightarrow> error + real" where
  "diversity_outer population mem_size mu [] diversity = Inr diversity"
| "diversity_outer population mem_size mu (i # idxs) diversity =
     (case diversity_inner population mem_size i [Suc i..<nat mu] diversity of
        Inl e \<Rightarrow> Inl e
      | Inr d \<Rightarrow> diversity_outer population mem_size mu idxs d)"

definition population_diversity :: "real list list \<Rightarrow> int \<Rightarrow> int \<Rightarrow> error + real" where
  "population_diversity population mem_size mu =
     diversity_outer population mem_size mu (py_range mu) 0"

text \<open>Lines 61-65: truncation selection.\<close>

fun index_all :: "'a list \<Rightarrow> nat list \<Rightarrow> error + 'a list" where
  "index_all xs [] = Inr []"
| "index_all xs (idx # idxs) =
     (case py_index xs (int idx) of
        Inl e \<Rightarrow> Inl e
      | Inr x \<Rightarrow>
          (case index_all xs idxs of
             Inl e \<Rightarrow> Inl e
           | Inr rest \<Rightarrow> Inr (x # rest)))"

definition selected_indices :: "int \<Rightarrow> real list \<Rightarrow> nat list" where
  "selected_indices mu offspring_fitnesses =
     map snd (py_slice_to
       (py_sort_desc fst (map (\<lambda>(i, f). (f, i)) (enumerate 0 offspring_fitnesses))) mu)"

definition truncation :: "int \<Rightarrow> real list list \<Rightarrow> real list \<Rightarrow> error + real list list" where
  "truncation mu offspring offspring_fitnesses =
     index_all offspring (selected_indices mu offspring_fitnesses)"

text \<open>
  The printed line, as the tuple of the values it formats (the label and the constant
  \<^verbatim>\<open>0.0\<close> field are fixed text).
\<close>

record telemetry =
  t_mu :: int
  t_lambda :: int
  t_tau :: real
  t_generation :: int
  t_evals :: int
  t_max_fitness :: real
  t_average :: real
  t_diversity :: real

text \<open>The variables that live across generations, and what has been printed so far.\<close>

record 'g es_state =
  population :: "real list list"
  cumulative_evals :: int
  rng :: 'g
  printed :: "telemetry list"

datatype 's outcome = Break 's | Next 's

text \<open>Lines 21-66: the body of the generational loop.\<close>

definition generation ::
  "(real list \<Rightarrow> real) \<Rightarrow> 'g rng_ops \<Rightarrow> int \<Rightarrow> int \<Rightarrow> int \<Rightarrow> real \<Rightarrow> int \<Rightarrow> 'g es_state
     \<Rightarrow> error + 'g es_state outcome" where
  "generation fitness ops mu lambda' mem_size tau generation_number st =
     (let fitnesses = map (\<lambda>member. fitness (py_slice_to member mem_size)) (population st);
          evals1 = cumulative_evals st + mu
      in
      case produce_offspring ops mu mem_size tau (population st) fitnesses
             (length (py_range lambda')) [] (rng st) of
        Inl e \<Rightarrow> Inl e
      | Inr (offspring, g') \<Rightarrow>
     (let offspring_fitnesses = map (\<lambda>member. fitness (py_slice_to member mem_size)) offspring;
          evals2 = evals1 + lambda'
      in
      case py_max fitnesses of
        Inl e \<Rightarrow> Inl e
      | Inr max_fitness \<Rightarrow>
     (if mu = 0 then Inl ZeroDivisionError
      else
     (let average = sum_list fitnesses / real_of_int mu in
      case population_diversity (population st) mem_size mu of
        Inl e \<Rightarrow> Inl e
      | Inr diversity \<Rightarrow>
     (let line = \<lparr>t_mu = mu, t_lambda = lambda', t_tau = tau,
                   t_generation = generation_number, t_evals = evals2,
                   t_max_fitness = max_fitness, t_average = average,
                   t_diversity = diversity\<rparr>;
          lines = printed st @ [line]
      in
      if average > 99 / 100
      then Inr (Break \<lparr>population = population st, cumulative_evals = evals2,
                        rng = g', printed = lines\<rparr>)
      else
        (case truncation mu offspring offspring_fitnesses of
           Inl e \<Rightarrow> Inl e
         | Inr new_population \<Rightarrow>
             Inr (Next \<lparr>population = new_population, cumulative_evals = evals2,
                        rng = g', printed = lines\<rparr>)))))))"

section \<open>The engine\<close>

text \<open>Line 20: the loop over the generation numbers, left by \<^verbatim>\<open>break\<close> or exhaustion.\<close>

fun es_loop ::
  "(real list \<Rightarrow> real) \<Rightarrow> 'g rng_ops \<Rightarrow> int \<Rightarrow> int \<Rightarrow> int \<Rightarrow> real \<Rightarrow> int list \<Rightarrow> 'g es_state
     \<Rightarrow> error + 'g es_state" where
  "es_loop fitness ops mu lambda' mem_size tau [] st = Inr st"
| "es_loop fitness ops mu lambda' mem_size tau (generation_number # gens) st =
     (case generation fitness ops mu lambda' mem_size tau generation_number st of
        Inl e \<Rightarrow> Inl e
      | Inr (Break st') \<Rightarrow> Inr st'
      | Inr (Next st') \<Rightarrow> es_loop fitness ops mu lambda' mem_size tau gens st')"

text \<open>Lines 17-18: the loop variables before the first generation.\<close>

definition initial_state ::
  "int \<Rightarrow> int \<Rightarrow> real \<times> real \<Rightarrow> real \<Rightarrow> 'g rng_ops \<Rightarrow> 'g \<Rightarrow> 'g es_state" where
  "initial_state mu mem_size mem_range sigma ops g =
     (case init_population mu mem_size mem_range sigma ops g of
        (pop0, g0) \<Rightarrow> \<lparr>population = pop0, cumulative_evals = 0, rng = g0, printed = []\<rparr>)"

text \<open>
  The whole call, returning the final values of all loop variables; the Python function
  returns the \<open>population\<close> field.
\<close>

definition evolution_strategy_run ::
  "(real list \<Rightarrow> real) \<Rightarrow> int \<Rightarrow> int \<Rightarrow> int \<Rightarrow> real \<times> real \<Rightarrow> real \<Rightarrow> real \<Rightarrow> int \<Rightarrow> 'g rng_ops \<Rightarrow> 'g
     \<Rightarrow> error + 'g es_state" where
  "evolution_strategy_run fitness mu lambda' mem_size mem_range sigma tau max_gens ops g =
     es_loop fitness ops mu lambda' mem_size tau [1..max_gens]
       (initial_state mu mem_size mem_range sigma ops g)"

definition evolution_strategy ::
  "(real list \<Rightarrow> real) \<Rightarrow> int \<Rightarrow> int \<Rightarrow> int \<Rightarrow> real \<times> real \<Rightarrow> real \<Rightarrow> real \<Rightarrow> int \<Rightarrow> 'g rng_ops \<Rightarrow> 'g
     \<Rightarrow> error + real list list" where
  "evolution_strategy fitness mu lambda' mem_size mem_range sigma tau max_gens ops g =
     (case evolution_strategy_run fitness mu lambda' mem_size mem_range sigma tau max_gens ops g of
        Inl e \<Rightarrow> Inl e
      | Inr st \<Rightarrow> Inr (population st))"

text \<open>
  The states at the top of each generation that the loop enters, in order: an
  observation of \<open>es_loop\<close>, used to state properties of every generation.
\<close>

fun generation_starts ::
  "(real list \<Rightarrow> real) \<Rightarrow> 'g rng_ops \<Rightarrow> int \<Rightarrow> int \<Rightarrow> int \<Rightarrow> real \<Rightarrow> int list \<Rightarrow> 'g es_state
     \<Rightarrow> 'g es_state list" where
  "generation_starts fitness ops mu lambda' mem_size tau [] st = []"
| "generation_starts fitness ops mu lambda' mem_size tau (generation_number # gens) st =
     st # (case generation fitness ops mu lambda' mem_size tau generation_number st of
             Inl e \<Rightarrow> []
           | Inr (Break st') \<Rightarrow> []
           | Inr (Next st') \<Rightarrow> generation_starts fitness ops mu lambda' mem_size tau gens st')"

section \<open>Evaluators and a generator for concrete runs\<close>

text \<open>\<^verbatim>\<open>MaxOnes.fitness\<close> (maxones.py, line 5).\<close>

definition maxones_fitness :: "real list \<Rightarrow> real" where
  "maxones_fitness member = 0"

text \<open>
  A small deterministic generator that meets the library's contract: \<open>uniform\<close> returns
  the lower bound, \<open>sample\<close> the first or the last \<open>k\<close> indices, \<open>gauss\<close> the mean or
  one deviation above it, alternating with the state.
\<close>

definition test_rng :: "nat rng_ops" where
  "test_rng =
     \<lparr>rng_uniform = (\<lambda>lo hi g. (lo, Suc g)),
      rng_sample = (\<lambda>n k g. (if even g then take k [0..<n] else take k (rev [0..<n]), Suc g)),
      rng_gauss = (\<lambda>m s g. (if even g then m else m + s, Suc g))\<rparr>"

section \<open>Reference notions for the properties\<close>

text \<open>
  The values of \<open>n\<close> successive calls \<^verbatim>\<open>rng.gauss(m, s)\<close> starting in state \<open>g\<close>, and
  the state they leave.
\<close>

fun gauss_draws :: "'g rng_ops \<Rightarrow> real \<Rightarrow> real \<Rightarrow> nat \<Rightarrow> 'g \<Rightarrow> real list \<times> 'g" where
  "gauss_draws ops m s 0 g = ([], g)"
| "gauss_draws ops m s (Suc n) g =
     (case rng_gauss ops m s g of
        (z, g') \<Rightarrow> (case gauss_draws ops m s n g' of (zs, g'') \<Rightarrow> (z # zs, g'')))"

text \<open>
  The order of truncation selection on offspring indices: higher fitness first, and among
  equal fitness the offspring produced earlier first.
\<close>

definition ranks_before :: "real list \<Rightarrow> nat \<Rightarrow> nat \<Rightarrow> bool" where
  "ranks_before fs i j \<longleftrightarrow> fs ! i > fs ! j \<or> (fs ! i = fs ! j \<and> i < j)"

text \<open>All offspring indices in the order the sort of lines 61-62 leaves them.\<close>

definition ranking :: "real list \<Rightarrow> nat list" where
  "ranking fs = map snd (py_sort_desc fst (map (\<lambda>(i, f). (f, i)) (enumerate 0 fs)))"

text \<open>
  The generator states at the top of each iteration of the offspring loop (lines 25-42),
  as far as the loop runs: an observation of \<open>produce_offspring\<close>.
\<close>

fun offspring_rng_states ::
  "'g rng_ops \<Rightarrow> int \<Rightarrow> int \<Rightarrow> real \<Rightarrow> real list list \<Rightarrow> real list \<Rightarrow> nat \<Rightarrow> 'g \<Rightarrow> 'g list" where
  "offspring_rng_states ops mu mem_size tau parents fitnesses 0 g = []"
| "offspring_rng_states ops mu mem_size tau parents fitnesses (Suc n) g =
     g # (case tournament ops mu fitnesses g of
            Inl e \<Rightarrow> []
          | Inr (parent_idx, g1) \<Rightarrow>
              (case py_index parents (int parent_idx) of
                 Inl e \<Rightarrow> []
               | Inr parent \<Rightarrow>
                   (case make_child ops mem_size tau parent g1 of
                      Inl e \<Rightarrow> []
                    | Inr (child, g2) \<Rightarrow>
                        offspring_rng_states ops mu mem_size tau parents fitnesses n g2)))"

text \<open>
  What the spec says a child of \<open>parent\<close> is, for \<open>n\<close> genes and the generator in state \<open>g\<close>:
  each gene plus its own draw \<^verbatim>\<open>gauss(0, sigma)\<close>, then the parent's sigma times
  \<open>exp (tau * z)\<close> for one draw \<open>z\<close> of \<^verbatim>\<open>gauss(0, 1)\<close> made after the gene draws.
\<close>

definition mutated :: "'g rng_ops \<Rightarrow> nat \<Rightarrow> real \<Rightarrow> real list \<Rightarrow> 'g \<Rightarrow> real list" where
  "mutated ops n tau parent g =
     map2 (+) (take n parent) (fst (gauss_draws ops 0 (parent ! n) n g)) @
     [parent ! n * exp (tau * fst (rng_gauss ops 0 1 (snd (gauss_draws ops 0 (parent ! n) n g))))]"

text \<open>The fitness list and the mean fitness of the parents of a state (lines 21 and 48).\<close>

definition parent_fitnesses :: "(real list \<Rightarrow> real) \<Rightarrow> int \<Rightarrow> 'g es_state \<Rightarrow> real list" where
  "parent_fitnesses fitness mem_size st =
     map (\<lambda>member. fitness (py_slice_to member mem_size)) (population st)"

definition mean_fitness :: "(real list \<Rightarrow> real) \<Rightarrow> int \<Rightarrow> int \<Rightarrow> 'g es_state \<Rightarrow> real" where
  "mean_fitness fitness mu mem_size st =
     sum_list (parent_fitnesses fitness mem_size st) / real_of_int mu"

text \<open>The states at the top of each generation of a whole run.\<close>

definition run_starts ::
  "(real list \<Rightarrow> real) \<Rightarrow> int \<Rightarrow> int \<Rightarrow> int \<Rightarrow> real \<times> real \<Rightarrow> real \<Rightarrow> real \<Rightarrow> int \<Rightarrow> 'g rng_ops \<Rightarrow> 'g
     \<Rightarrow> 'g es_state list" where
  "run_starts fitness mu lambda' mem_size mem_range sigma tau max_gens ops g =
     generation_starts fitness ops mu lambda' mem_size tau [1..max_gens]
       (initial_state mu mem_size mem_range sigma ops g)"

text \<open>A parent state and the state one generation later, for concrete checks.\<close>

definition example_parents :: "nat es_state" where
  "example_parents =
     \<lparr>population = [[1, 1/2], [2, 1/2]], cumulative_evals = 0, rng = 0, printed = []\<rparr>"

definition example_children :: "nat es_state" where
  "example_children =
     \<lparr>population = [[3/2, 1/2], [2, exp (1/10) / 2]], cumulative_evals = 4, rng = 6,
      printed = [\<lparr>t_mu = 2, t_lambda = 2, t_tau = 1/10, t_generation = 1, t_evals = 4,
                  t_max_fitness = 0, t_average = 0, t_diversity = 1\<rparr>]\<rparr>"

text \<open>The states of a two-generation run with the test generator, for concrete checks.\<close>

definition run_line1 :: telemetry where
  "run_line1 = \<lparr>t_mu = 2, t_lambda = 2, t_tau = 0, t_generation = 1, t_evals = 4,
                  t_max_fitness = 0, t_average = 0, t_diversity = 0\<rparr>"

definition run_line2 :: telemetry where
  "run_line2 = \<lparr>t_mu = 2, t_lambda = 2, t_tau = 0, t_generation = 2, t_evals = 8,
                  t_max_fitness = 0, t_average = 0, t_diversity = 1\<rparr>"

definition run_state0 :: "nat es_state" where
  "run_state0 = \<lparr>population = [[0, 1], [0, 1]], cumulative_evals = 0, rng = 2, printed = []\<rparr>"

definition run_state1 :: "nat es_state" where
  "run_state1 = \<lparr>population = [[1, 1], [0, 1]], cumulative_evals = 4, rng = 8,
                   printed = [run_line1]\<rparr>"

definition run_state2 :: "nat es_state" where
  "run_state2 = \<lparr>population = [[2, 1], [0, 1]], cumulative_evals = 8, rng = 14,
                   printed = [run_line1, run_line2]\<rparr>"

text \<open>The fitness list of the offspring (line 44).\<close>

definition offspring_fitnesses :: "(real list \<Rightarrow> real) \<Rightarrow> int \<Rightarrow> real list list \<Rightarrow> real list" where
  "offspring_fitnesses fitness mem_size offspring =
     map (\<lambda>member. fitness (py_slice_to member mem_size)) offspring"

text \<open>The state a generation leaves, whether it breaks or goes on.\<close>

fun outcome_state :: "'s outcome \<Rightarrow> 's" where
  "outcome_state (Break s) = s"
| "outcome_state (Next s) = s"

text \<open>
  The count equals the number of telemetry lines printed so far times \<open>mu + lambda\<close>, and
  line \<open>i\<close> (from 0) reports \<open>(i + 1) * (mu + lambda)\<close>.
\<close>

definition evals_accounted :: "int \<Rightarrow> int \<Rightarrow> 'g es_state \<Rightarrow> bool" where
  "evals_accounted mu lambda' st \<longleftrightarrow>
     cumulative_evals st = int (length (printed st)) * (mu + lambda') \<and>
     (\<forall>i<length (printed st). t_evals (printed st ! i) = (int i + 1) * (mu + lambda'))"

text \<open>A population of \<open>mu\<close> individuals, each of \<open>N\<close> genes and a sigma.\<close>

definition well_formed :: "int \<Rightarrow> int \<Rightarrow> real list list \<Rightarrow> bool" where
  "well_formed mu mem_size pop \<longleftrightarrow>
     length pop = nat mu \<and> (\<forall>m\<in>set pop. length m = nat mem_size + 1)"

text \<open>The state returned by a run that stops early in its first generation.\<close>

definition stop_state :: "nat es_state" where
  "stop_state =
     \<lparr>population = [[0, 1], [0, 1]], cumulative_evals = 5, rng = 11,
      printed = [\<lparr>t_mu = 2, t_lambda = 3, t_tau = 0, t_generation = 1, t_evals = 5,
                  t_max_fitness = 1, t_average = 1, t_diversity = 0\<rparr>]\<rparr>"

section \<open>Basic facts about the primitives\<close>

lemma py_index_nat:
  "py_index xs (int i) = (if i < length xs then Inr (xs ! i) else Inl IndexError)"
  by (simp add: py_index_def)

lemma py_index_in_range:
  "0 \<le> i \<Longrightarrow> nat i < length xs \<Longrightarrow> py_index xs i = Inr (xs ! nat i)"
  by (simp add: py_index_def)

lemma py_slice_to_nonneg: "0 \<le> n \<Longrightarrow> py_slice_to xs n = take (nat n) xs"
  by (simp add: py_slice_to_def)

lemma py_range_length: "length (py_range n) = nat n"
  by (simp add: py_range_def)

lemma test_rng_sample_ok: "sample_ok test_rng"
  by (auto simp: sample_ok_def test_rng_def dest: in_set_takeD)

section \<open>Truncation selection\<close>

lemma insort_key_lex:
  fixes f :: "'a \<Rightarrow> real"
  assumes "sorted_wrt (\<lambda>a b. f a < f b \<or> (f a = f b \<and> R a b)) ys"
      and "\<forall>y\<in>set ys. R x y"
  shows "sorted_wrt (\<lambda>a b. f a < f b \<or> (f a = f b \<and> R a b)) (insort_key f x ys)"
  using assms
proof (induction ys)
  case Nil
  then show ?case by simp
next
  case (Cons y ys)
  show ?case
  proof (cases "f x \<le> f y")
    case True
    with Cons.prems show ?thesis by (auto simp: set_insort_key)
  next
    case False
    with Cons show ?thesis by (auto simp: set_insort_key)
  qed
qed

lemma sort_key_lex:
  fixes f :: "'a \<Rightarrow> real"
  assumes "sorted_wrt R xs"
  shows "sorted_wrt (\<lambda>a b. f a < f b \<or> (f a = f b \<and> R a b)) (sort_key f xs)"
  using assms
proof (induction xs)
  case Nil
  then show ?case by simp
next
  case (Cons x xs)
  then have "sorted_wrt (\<lambda>a b. f a < f b \<or> (f a = f b \<and> R a b)) (sort_key f xs)"
    and "\<forall>y\<in>set (sort_key f xs). R x y"
    by simp_all
  then have "sorted_wrt (\<lambda>a b. f a < f b \<or> (f a = f b \<and> R a b))
      (insort_key f x (sort_key f xs))"
    by (rule insort_key_lex)
  then show ?case by simp
qed

lemma sort_key_all_equal:
  assumes "\<forall>x\<in>set xs. \<forall>y\<in>set xs. f x = f y"
  shows "sort_key f xs = xs"
proof (cases xs)
  case Nil
  then show ?thesis by simp
next
  case (Cons x rest)
  have stable: "filter (\<lambda>y. f y = f x) (sort_key f xs) = filter (\<lambda>y. f y = f x) xs"
    by (rule sort_key_stable)
  have "x \<in> set xs"
    unfolding Cons by (rule list.set_intros(1))
  with assms have all: "\<forall>y\<in>set xs. f y = f x"
    by blast
  then have "filter (\<lambda>y. f y = f x) xs = xs"
    by (simp only: filter_True)
  moreover from all have "\<forall>y\<in>set (sort_key f xs). f y = f x"
    by (simp only: set_sort)
  then have "filter (\<lambda>y. f y = f x) (sort_key f xs) = sort_key f xs"
    by (simp only: filter_True)
  ultimately show ?thesis using stable by (simp only:)
qed

lemma indexed_eq: "map (\<lambda>(i, f). (f, i)) (enumerate 0 fs) = zip fs [0..<length fs]"
  by (rule nth_equalityI) (simp_all add: nth_enumerate_eq)

lemma ranking_zip: "ranking fs = map snd (sort_key (\<lambda>x. - fst x) (zip fs [0..<length fs]))"
  by (simp add: ranking_def py_sort_desc_def indexed_eq)

lemma snd_zip_upt: "map snd (zip fs [0..<length fs]) = [0..<length fs]"
  by (simp add: map_snd_zip)

lemma set_ranking: "set (ranking fs) = {..<length fs}"
proof -
  have "set (ranking fs) = snd ` set (zip fs [0..<length fs])"
    by (simp add: ranking_zip)
  also have "\<dots> = set (map snd (zip fs [0..<length fs]))"
    by (simp only: set_map)
  also have "\<dots> = {..<length fs}"
    by (simp only: snd_zip_upt set_upt atLeast0LessThan)
  finally show ?thesis .
qed

lemma length_ranking: "length (ranking fs) = length fs"
  by (simp add: ranking_zip)

lemma distinct_ranking: "distinct (ranking fs)"
proof -
  have "card (set (ranking fs)) = length (ranking fs)"
    by (simp add: set_ranking length_ranking)
  then show ?thesis by (rule card_distinct)
qed

lemma sorted_ranking: "sorted_wrt (ranks_before fs) (ranking fs)"
proof -
  let ?xs = "zip fs [0..<length fs]"
  let ?key = "\<lambda>x::real \<times> nat. - fst x"
  let ?L = "\<lambda>a b. ?key a < ?key b \<or> (?key a = ?key b \<and> snd a < snd b)"
  have "sorted_wrt (<) (map snd ?xs)"
    unfolding snd_zip_upt by (rule sorted_wrt_upt)
  then have "sorted_wrt (\<lambda>a b. snd a < snd b) ?xs"
    by (simp only: sorted_wrt_map)
  then have lex: "sorted_wrt ?L (sort_key ?key ?xs)"
    by (rule sort_key_lex)
  have mem: "fst a = fs ! snd a" if "a \<in> set (sort_key ?key ?xs)" for a
  proof -
    from that have "a \<in> set ?xs" by simp
    then show ?thesis by (auto simp: set_zip)
  qed
  have "sorted_wrt (\<lambda>a b. ranks_before fs (snd a) (snd b)) (sort_key ?key ?xs)"
    using lex
  proof (rule sorted_wrt_mono_rel[rotated])
    fix a b
    assume "a \<in> set (sort_key ?key ?xs)" "b \<in> set (sort_key ?key ?xs)" "?L a b"
    then show "ranks_before fs (snd a) (snd b)"
      using mem[of a] mem[of b] by (auto simp: ranks_before_def)
  qed
  then show ?thesis
    by (simp only: ranking_zip sorted_wrt_map)
qed

lemma selected_indices_take:
  "0 \<le> mu \<Longrightarrow> selected_indices mu fs = take (nat mu) (ranking fs)"
  by (simp add: selected_indices_def ranking_def py_slice_to_def take_map)


lemma index_all_in_range:
  "\<forall>i\<in>set idxs. i < length xs \<Longrightarrow> index_all xs idxs = Inr (map ((!) xs) idxs)"
  by (induction idxs) (simp_all add: py_index_def)

lemma ranking_all_equal:
  assumes "\<forall>i<length fs. \<forall>j<length fs. fs ! i = fs ! j"
  shows "ranking fs = [0..<length fs]"
proof -
  let ?xs = "zip fs [0..<length fs]"
  have "\<forall>a\<in>set ?xs. \<forall>b\<in>set ?xs. - fst a = - fst b"
    using assms by (auto simp: set_zip)
  then have "sort_key (\<lambda>x. - fst x) ?xs = ?xs"
    by (rule sort_key_all_equal)
  then show ?thesis
    by (simp only: ranking_zip snd_zip_upt)
qed

lemma truncation_spec:
  assumes "0 \<le> mu" and "length offspring = length fs"
  shows "distinct (selected_indices mu fs) \<and>
         set (selected_indices mu fs) \<subseteq> {..<length fs} \<and>
         length (selected_indices mu fs) = min (nat mu) (length fs) \<and>
         sorted_wrt (ranks_before fs) (selected_indices mu fs) \<and>
         (\<forall>i\<in>set (selected_indices mu fs). \<forall>k<length fs.
             k \<notin> set (selected_indices mu fs) \<longrightarrow> ranks_before fs i k) \<and>
         truncation mu offspring fs = Inr (map ((!) offspring) (selected_indices mu fs)) \<and>
         ((\<forall>i<length fs. \<forall>j<length fs. fs ! i = fs ! j) \<longrightarrow>
             truncation mu offspring fs = Inr (take (nat mu) offspring))"
proof -
  let ?sel = "selected_indices mu fs"
  have sel: "?sel = take (nat mu) (ranking fs)"
    using assms(1) by (rule selected_indices_take)
  have d: "distinct ?sel"
    unfolding sel using distinct_ranking by (rule distinct_take)
  have sub: "set ?sel \<subseteq> {..<length fs}"
    unfolding sel using set_take_subset[of "nat mu" "ranking fs"] by (simp add: set_ranking)
  have len: "length ?sel = min (nat mu) (length fs)"
    unfolding sel by (simp add: length_ranking min.commute)
  have split: "sorted_wrt (ranks_before fs) (take (nat mu) (ranking fs) @ drop (nat mu) (ranking fs))"
    using sorted_ranking[of fs] by simp
  then have srt: "sorted_wrt (ranks_before fs) ?sel"
    unfolding sel sorted_wrt_append by blast
  have top: "\<forall>i\<in>set ?sel. \<forall>k<length fs. k \<notin> set ?sel \<longrightarrow> ranks_before fs i k"
  proof (intro ballI allI impI)
    fix i k
    assume i: "i \<in> set ?sel" and k: "k < length fs" and nk: "k \<notin> set ?sel"
    have "set (ranking fs) = set (take (nat mu) (ranking fs)) \<union> set (drop (nat mu) (ranking fs))"
      by (metis append_take_drop_id set_append)
    moreover from k have "k \<in> set (ranking fs)"
      by (simp add: set_ranking)
    ultimately have "k \<in> set (drop (nat mu) (ranking fs))"
      using nk unfolding sel by blast
    with split i show "ranks_before fs i k"
      unfolding sel sorted_wrt_append by blast
  qed
  have idx: "\<forall>i\<in>set ?sel. i < length offspring"
    using sub assms(2) by auto
  then have trunc: "truncation mu offspring fs = Inr (map ((!) offspring) ?sel)"
    unfolding truncation_def by (rule index_all_in_range)
  have eq: "truncation mu offspring fs = Inr (take (nat mu) offspring)"
    if "\<forall>i<length fs. \<forall>j<length fs. fs ! i = fs ! j"
  proof -
    from that have "ranking fs = [0..<length fs]"
      by (rule ranking_all_equal)
    then have "ranking fs = [0..<length offspring]"
      by (simp only: assms(2))
    then have "map ((!) offspring) ?sel = take (nat mu) (map ((!) offspring) [0..<length offspring])"
      unfolding sel by (simp only: take_map)
    then show ?thesis
      unfolding trunc by (simp only: map_nth)
  qed
  from eq have eq': "(\<forall>i<length fs. \<forall>j<length fs. fs ! i = fs ! j) \<longrightarrow>
      truncation mu offspring fs = Inr (take (nat mu) offspring)"
    by (rule impI)
  show ?thesis
    by (intro conjI d sub len srt top trunc eq')
qed


section \<open>Mutation and the offspring loop\<close>

lemma gauss_draws_length: "gauss_draws ops m s n g = (zs, g') \<Longrightarrow> length zs = n"
  by (induction n arbitrary: g zs g') (auto split: prod.splits)

lemma length_gauss_draws: "length (fst (gauss_draws ops m s n g)) = n"
  by (cases "gauss_draws ops m s n g") (simp add: gauss_draws_length)

lemma mutate_genes_draws:
  "mutate_genes ops s genes child g =
     (child @ map2 (+) genes (fst (gauss_draws ops 0 s (length genes) g)),
      snd (gauss_draws ops 0 s (length genes) g))"
  by (induction genes arbitrary: child g) (auto split: prod.splits)

lemma py_index_Inr:
  "py_index xs i = Inr x \<Longrightarrow> 0 \<le> i \<Longrightarrow> nat i < length xs \<and> x = xs ! nat i"
  by (auto simp: py_index_def split: if_splits)

lemma make_child_Inr:
  assumes "make_child ops mem_size tau parent g = Inr (child, g2)" and "0 \<le> mem_size"
  shows "nat mem_size < length parent \<and>
         child = mutated ops (nat mem_size) tau parent g \<and>
         g2 = snd (rng_gauss ops 0 1
                (snd (gauss_draws ops 0 (parent ! nat mem_size) (nat mem_size) g))) \<and>
         exp (tau * fst (rng_gauss ops 0 1
                (snd (gauss_draws ops 0 (parent ! nat mem_size) (nat mem_size) g)))) \<le> float_max"
proof -
  from assms obtain sigma_val where s: "py_index parent mem_size = Inr sigma_val"
    by (auto simp: make_child_def split: sum.splits)
  from py_index_Inr[OF s assms(2)] have len: "nat mem_size < length parent"
    and sv: "sigma_val = parent ! nat mem_size" by simp_all
  from len have tk: "length (take (nat mem_size) parent) = nat mem_size" by simp
  show ?thesis
    using assms len
    by (auto simp: make_child_def s sv py_slice_to_nonneg mutate_genes_draws tk mutated_def
        py_exp_def split: prod.splits if_splits)
qed

lemma make_child_length:
  assumes "make_child ops mem_size tau parent g = Inr (child, g2)" and "0 \<le> mem_size"
  shows "length child = nat mem_size + 1"
proof -
  from make_child_Inr[OF assms] have "nat mem_size < length parent"
    and "child = mutated ops (nat mem_size) tau parent g" by simp_all
  then show ?thesis by (simp add: mutated_def length_gauss_draws)
qed

lemma make_child_error:
  assumes "make_child ops mem_size tau parent g = Inl e"
      and "0 \<le> mem_size" and "nat mem_size < length parent"
  shows "e = OverflowError"
  using assms
  by (auto simp: make_child_def py_index_in_range py_exp_def split: prod.splits if_splits)

lemma produce_offspring_Inr:
  assumes "produce_offspring ops mu mem_size tau parents fs n acc g = Inr (offspring, g')"
      and "0 \<le> mem_size"
  shows "\<exists>children. offspring = acc @ children \<and> length children = n \<and>
           (\<forall>k<n. \<exists>idx g1.
              tournament ops mu fs (offspring_rng_states ops mu mem_size tau parents fs n g ! k)
                = Inr (idx, g1) \<and>
              idx < length parents \<and> nat mem_size < length (parents ! idx) \<and>
              children ! k = mutated ops (nat mem_size) tau (parents ! idx) g1)"
  using assms(1)
proof (induction n arbitrary: acc g)
  case 0
  then show ?case by simp
next
  case (Suc n)
  from Suc.prems obtain idx g1 where t: "tournament ops mu fs g = Inr (idx, g1)"
    by (auto split: sum.splits)
  from Suc.prems t obtain parent where p: "py_index parents (int idx) = Inr parent"
    by (auto split: sum.splits)
  from Suc.prems t p obtain child g2 where
    c: "make_child ops mem_size tau parent g1 = Inr (child, g2)"
    by (auto split: sum.splits)
  from Suc.prems t p c have
    rest: "produce_offspring ops mu mem_size tau parents fs n (acc @ [child]) g2 = Inr (offspring, g')"
    by simp
  from p have idx: "idx < length parents" and par: "parent = parents ! idx"
    by (auto simp: py_index_nat split: if_splits)
  from make_child_Inr[OF c assms(2)] have len: "nat mem_size < length parent"
    and ch: "child = mutated ops (nat mem_size) tau parent g1" by simp_all
  from Suc.IH[OF rest] obtain children where
    o: "offspring = (acc @ [child]) @ children" and l: "length children = n" and
    k: "\<forall>k<n. \<exists>idx g1.
          tournament ops mu fs (offspring_rng_states ops mu mem_size tau parents fs n g2 ! k)
            = Inr (idx, g1) \<and>
          idx < length parents \<and> nat mem_size < length (parents ! idx) \<and>
          children ! k = mutated ops (nat mem_size) tau (parents ! idx) g1"
    by blast
  have st: "offspring_rng_states ops mu mem_size tau parents fs (Suc n) g =
      g # offspring_rng_states ops mu mem_size tau parents fs n g2"
    using t p c by simp
  have "\<exists>idx g1.
          tournament ops mu fs (offspring_rng_states ops mu mem_size tau parents fs (Suc n) g ! j)
            = Inr (idx, g1) \<and>
          idx < length parents \<and> nat mem_size < length (parents ! idx) \<and>
          (child # children) ! j = mutated ops (nat mem_size) tau (parents ! idx) g1"
    if "j < Suc n" for j
  proof (cases j)
    case 0
    then show ?thesis
      using t idx len ch par unfolding st by auto
  next
    case (Suc j')
    with that have "j' < n" by simp
    with k show ?thesis
      unfolding st Suc by simp
  qed
  then show ?case
    using o l by (intro exI[of _ "child # children"]) simp
qed

section \<open>The parts of a generation\<close>

lemma generation_Inr:
  assumes "generation fitness ops mu lambda' mem_size tau gen st = Inr r"
  shows "\<exists>offspring g' mx d.
           produce_offspring ops mu mem_size tau (population st)
             (parent_fitnesses fitness mem_size st) (nat lambda') [] (rng st) = Inr (offspring, g') \<and>
           py_max (parent_fitnesses fitness mem_size st) = Inr mx \<and> mu \<noteq> 0 \<and>
           population_diversity (population st) mem_size mu = Inr d \<and>
           ((mean_fitness fitness mu mem_size st > 99 / 100 \<and>
             r = Break \<lparr>population = population st,
                        cumulative_evals = cumulative_evals st + mu + lambda', rng = g',
                        printed = printed st @
                          [\<lparr>t_mu = mu, t_lambda = lambda', t_tau = tau, t_generation = gen,
                            t_evals = cumulative_evals st + mu + lambda', t_max_fitness = mx,
                            t_average = mean_fitness fitness mu mem_size st,
                            t_diversity = d\<rparr>]\<rparr>) \<or>
            (\<not> mean_fitness fitness mu mem_size st > 99 / 100 \<and>
             (\<exists>new_population.
                truncation mu offspring
                  (map (\<lambda>member. fitness (py_slice_to member mem_size)) offspring)
                  = Inr new_population \<and>
                r = Next \<lparr>population = new_population,
                          cumulative_evals = cumulative_evals st + mu + lambda', rng = g',
                          printed = printed st @
                            [\<lparr>t_mu = mu, t_lambda = lambda', t_tau = tau, t_generation = gen,
                              t_evals = cumulative_evals st + mu + lambda', t_max_fitness = mx,
                              t_average = mean_fitness fitness mu mem_size st,
                              t_diversity = d\<rparr>]\<rparr>)))"
  using assms
  unfolding generation_def parent_fitnesses_def mean_fitness_def Let_def py_range_length
  by (auto split: sum.splits if_splits prod.splits)

lemma float_max_ge_3: "3 \<le> float_max"
  by (simp add: float_max_def)

lemma exp_small: "x \<le> 1 \<Longrightarrow> \<not> float_max < exp x"
proof -
  assume "x \<le> 1"
  then have "exp x \<le> exp 1" by simp
  also have "\<dots> \<le> 3" by (rule exp_le)
  finally show ?thesis using float_max_ge_3 by simp
qed

lemma index_all_Inr:
  "index_all xs idxs = Inr ys \<Longrightarrow> ys = map ((!) xs) idxs \<and> (\<forall>i\<in>set idxs. i < length xs)"
  by (induction idxs arbitrary: ys) (auto simp: py_index_nat split: sum.splits if_splits)

lemma truncation_subset:
  assumes "truncation mu offspring fs = Inr new_population"
  shows "set new_population \<subseteq> set offspring"
proof -
  from assms have "index_all offspring (selected_indices mu fs) = Inr new_population"
    by (simp add: truncation_def)
  from index_all_Inr[OF this] show ?thesis by auto
qed

lemma float_max_small: "x \<le> 3 \<Longrightarrow> \<not> float_max < x"
  using float_max_ge_3 by simp

lemma float_tiny_small: "1 \<le> x \<Longrightarrow> \<not> x \<le> float_tiny"
  by (simp add: float_tiny_def)

lemma float_tiny_nonneg: "0 \<le> float_tiny"
  by (simp add: float_tiny_def)

lemma two_dvd_Suc_Suc: "Suc (Suc 0) dvd Suc (Suc n) \<longleftrightarrow> Suc (Suc 0) dvd n"
  by (metis One_nat_def Suc_1 even_Suc_Suc_iff)

lemma two_dvd_one: "\<not> Suc (Suc 0) dvd Suc 0"
  by simp

lemmas eval_defs = generation_def tournament_def py_sample_def py_max_key_def py_index_def
  py_slice_to_def py_range_def make_child_def py_exp_def py_sq_def test_rng_def maxones_fitness_def
  py_max_def population_diversity_def gene_dist_def truncation_def selected_indices_def
  py_sort_desc_def Let_def enumerate_eq_zip eval_nat_numeral upt_conv_Cons exp_small
  float_max_small float_tiny_small float_tiny_nonneg two_dvd_Suc_Suc two_dvd_one

section \<open>Population size\<close>

lemma init_member_length:
  "length (fst (init_member ops r n member g)) = length member + n"
  by (induction n arbitrary: member g) (auto split: prod.splits)

lemma init_members_length:
  "length (fst (init_members ops mem_size r sigma n pop g)) = length pop + n"
  by (induction n arbitrary: pop g) (auto split: prod.splits)

lemma init_members_member_length:
  assumes "\<forall>m\<in>set pop. length m = nat mem_size + 1"
  shows "\<forall>m\<in>set (fst (init_members ops mem_size r sigma n pop g)). length m = nat mem_size + 1"
  using assms
proof (induction n arbitrary: pop g)
  case 0
  then show ?case by simp
next
  case (Suc n)
  obtain member g' where im: "init_member ops r (length (py_range mem_size)) [] g = (member, g')"
    by (cases "init_member ops r (length (py_range mem_size)) [] g")
  have "length (fst (init_member ops r (length (py_range mem_size)) [] g)) = nat mem_size"
    by (simp add: init_member_length py_range_length)
  with im have "length member = nat mem_size" by simp
  with Suc.prems have "\<forall>m\<in>set (pop @ [member @ [sigma]]). length m = nat mem_size + 1"
    by auto
  from Suc.IH[OF this] show ?case
    by (simp add: im)
qed

lemma init_population_length:
  "length (fst (init_population mu mem_size r sigma ops g)) = nat mu"
  by (simp add: init_population_def init_members_length py_range_length)

lemma init_population_member_length:
  "\<forall>m\<in>set (fst (init_population mu mem_size r sigma ops g)). length m = nat mem_size + 1"
  unfolding init_population_def by (rule init_members_member_length) simp

lemma produce_offspring_length:
  "produce_offspring ops mu mem_size tau parents fs n acc g = Inr (offspring, g')
     \<Longrightarrow> length offspring = length acc + n"
  by (induction n arbitrary: acc g) (auto split: sum.splits)

lemma length_selected_indices:
  "0 \<le> mu \<Longrightarrow> length (selected_indices mu fs) = min (nat mu) (length fs)"
  by (simp add: selected_indices_take length_ranking min.commute)

lemma truncation_length:
  assumes "truncation mu offspring fs = Inr new_population" and "0 \<le> mu"
  shows "length new_population = min (nat mu) (length fs)"
proof -
  from assms(1) have "index_all offspring (selected_indices mu fs) = Inr new_population"
    by (simp add: truncation_def)
  from index_all_Inr[OF this] have "new_population = map ((!) offspring) (selected_indices mu fs)"
    by simp
  then show ?thesis
    by (simp add: length_selected_indices assms(2))
qed

lemma py_max_Inr: "py_max xs = Inr m \<Longrightarrow> xs \<noteq> []"
  by (auto simp: py_max_def)

lemma generation_Break_population:
  "generation fitness ops mu lambda' mem_size tau gen st = Inr (Break st')
     \<Longrightarrow> population st' = population st"
  by (drule generation_Inr) auto

lemma generation_Next_length:
  assumes "generation fitness ops mu lambda' mem_size tau gen st = Inr (Next st')"
      and "length (population st) = nat mu"
  shows "length (population st') = min (nat mu) (nat lambda')"
proof -
  from generation_Inr[OF assms(1)] obtain offspring g' mx new_population where
    po: "produce_offspring ops mu mem_size tau (population st)
           (parent_fitnesses fitness mem_size st) (nat lambda') [] (rng st) = Inr (offspring, g')"
    and mx: "py_max (parent_fitnesses fitness mem_size st) = Inr mx"
    and tr: "truncation mu offspring
               (map (\<lambda>member. fitness (py_slice_to member mem_size)) offspring) = Inr new_population"
    and p: "population st' = new_population"
    by fastforce
  from py_max_Inr[OF mx] have "population st \<noteq> []"
    by (simp add: parent_fitnesses_def)
  with assms(2) have "0 \<le> mu" by (cases "0 \<le> mu") auto
  from truncation_length[OF tr this] produce_offspring_length[OF po] p show ?thesis
    by simp
qed

lemma generation_starts_length:
  assumes "mu \<le> lambda'" and "length (population st) = nat mu"
  shows "\<forall>s\<in>set (generation_starts fitness ops mu lambda' mem_size tau gens st).
           length (population s) = nat mu"
  using assms(2)
proof (induction gens arbitrary: st)
  case Nil
  then show ?case by simp
next
  case (Cons gen gens)
  show ?case
  proof (cases "generation fitness ops mu lambda' mem_size tau gen st")
    case (Inl e)
    with Cons.prems show ?thesis by simp
  next
    case (Inr r)
    show ?thesis
    proof (cases r)
      case (Break st')
      with Inr Cons.prems show ?thesis by simp
    next
      case (Next st')
      with Inr generation_Next_length[of fitness ops mu lambda' mem_size tau gen st st'] Cons.prems
      have "length (population st') = min (nat mu) (nat lambda')" by simp
      with assms(1) have "length (population st') = nat mu" by simp
      from Cons.IH[OF this] Inr Next Cons.prems show ?thesis by simp
    qed
  qed
qed

lemma es_loop_length:
  assumes "mu \<le> lambda'" and "length (population st) = nat mu"
      and "es_loop fitness ops mu lambda' mem_size tau gens st = Inr st'"
  shows "length (population st') = nat mu"
  using assms(2,3)
proof (induction gens arbitrary: st)
  case Nil
  then show ?case by simp
next
  case (Cons gen gens)
  show ?case
  proof (cases "generation fitness ops mu lambda' mem_size tau gen st")
    case (Inl e)
    with Cons.prems show ?thesis by simp
  next
    case (Inr r)
    show ?thesis
    proof (cases r)
      case (Break s)
      with Inr Cons.prems generation_Break_population[of fitness ops mu lambda' mem_size tau gen st s]
      show ?thesis by simp
    next
      case (Next s)
      with Inr generation_Next_length[of fitness ops mu lambda' mem_size tau gen st s] Cons.prems
      have "length (population s) = min (nat mu) (nat lambda')" by simp
      with assms(1) have "length (population s) = nat mu" by simp
      from Cons.IH[OF this] Inr Next Cons.prems show ?thesis by simp
    qed
  qed
qed

section \<open>Concrete runs\<close>

lemma upto_1_1: "[1..1::int] = [1]" by (simp add: upto.simps)
lemma upto_1_2: "[1..2::int] = [1, 2]" by (simp add: upto.simps)
lemma upto_1_0: "[1..0::int] = []" by (simp add: upto.simps)

lemmas run_defs = evolution_strategy_def evolution_strategy_run_def initial_state_def
  init_population_def run_starts_def upto_1_0 upto_1_1 upto_1_2

section \<open>Offspring\<close>

text \<open>
  C1. In every generation that reaches its statistics, the offspring loop returns
  \<open>lambda\<close> children, and child \<open>k\<close> is made from the parent selected by the tournament
  of iteration \<open>k\<close>: each of its \<open>N\<close> genes is the parent's gene plus its own draw
  \<^verbatim>\<open>gauss(0, sigma)\<close> with the parent's sigma, and its sigma is the parent's sigma times
  \<open>exp (tau * z)\<close> for one draw \<open>z\<close> of \<^verbatim>\<open>gauss(0, 1)\<close> made after the gene draws
  (\<open>mutated\<close>). The next parents are taken from these children.
\<close>

theorem offspring_are_mutated_parents:
  assumes "generation fitness ops mu lambda' mem_size tau gen st = Inr r" and "0 \<le> mem_size"
  shows "\<exists>offspring g'.
           produce_offspring ops mu mem_size tau (population st)
             (parent_fitnesses fitness mem_size st) (nat lambda') [] (rng st) = Inr (offspring, g') \<and>
           length offspring = nat lambda' \<and>
           (\<forall>k<nat lambda'. \<exists>idx g1.
              tournament ops mu (parent_fitnesses fitness mem_size st)
                (offspring_rng_states ops mu mem_size tau (population st)
                   (parent_fitnesses fitness mem_size st) (nat lambda') (rng st) ! k)
                = Inr (idx, g1) \<and>
              idx < length (population st) \<and> nat mem_size < length (population st ! idx) \<and>
              offspring ! k = mutated ops (nat mem_size) tau (population st ! idx) g1) \<and>
           (\<forall>st'. r = Next st' \<longrightarrow> set (population st') \<subseteq> set offspring)"
proof -
  from generation_Inr[OF assms(1)] obtain offspring g' where
    po: "produce_offspring ops mu mem_size tau (population st)
           (parent_fitnesses fitness mem_size st) (nat lambda') [] (rng st) = Inr (offspring, g')"
    and r: "(\<exists>s. r = Break s) \<or>
            (\<exists>new_population s.
                truncation mu offspring
                  (map (\<lambda>member. fitness (py_slice_to member mem_size)) offspring)
                  = Inr new_population \<and> r = Next s \<and> population s = new_population)"
    by fastforce
  from produce_offspring_Inr[OF po assms(2)] have
    len: "length offspring = nat lambda'" and
    each: "\<forall>k<nat lambda'. \<exists>idx g1.
              tournament ops mu (parent_fitnesses fitness mem_size st)
                (offspring_rng_states ops mu mem_size tau (population st)
                   (parent_fitnesses fitness mem_size st) (nat lambda') (rng st) ! k)
                = Inr (idx, g1) \<and>
              idx < length (population st) \<and> nat mem_size < length (population st ! idx) \<and>
              offspring ! k = mutated ops (nat mem_size) tau (population st ! idx) g1"
    by auto
  have nxt: "\<forall>st'. r = Next st' \<longrightarrow> set (population st') \<subseteq> set offspring"
    using r truncation_subset by fastforce
  from po len each nxt show ?thesis by blast
qed
theorem offspring_are_mutated_parents_witness:
  "generation maxones_fitness test_rng 2 2 1 (1/10) 1 example_parents
     = Inr (Next example_children) \<and>
   0 \<le> (1::int) \<and>
   produce_offspring test_rng 2 1 (1/10) [[1, 1/2], [2, 1/2]] [0, 0] 2 [] 0
     = Inr ([[3/2, 1/2], [2, exp (1/10) / 2]], 6) \<and>
   mutated test_rng 1 (1/10) [2, 1/2] 4 = [2, exp (1/10) / 2] \<and>
   (\<exists>offspring g'.
           produce_offspring test_rng 2 1 (1/10) (population example_parents)
             (parent_fitnesses maxones_fitness 1 example_parents) (nat 2) [] (rng example_parents) = Inr (offspring, g') \<and>
           length offspring = nat 2 \<and>
           (\<forall>k<nat 2. \<exists>idx g1.
              tournament test_rng 2 (parent_fitnesses maxones_fitness 1 example_parents)
                (offspring_rng_states test_rng 2 1 (1/10) (population example_parents)
                   (parent_fitnesses maxones_fitness 1 example_parents) (nat 2) (rng example_parents) ! k)
                = Inr (idx, g1) \<and>
              idx < length (population example_parents) \<and> nat 1 < length (population example_parents ! idx) \<and>
              offspring ! k = mutated test_rng (nat 1) (1/10) (population example_parents ! idx) g1) \<and>
           (\<forall>st'. (Next example_children) = Next st' \<longrightarrow> set (population st') \<subseteq> set offspring))"
proof -
  have gen: "generation maxones_fitness test_rng 2 2 1 (1/10) 1 example_parents
      = Inr (Next example_children)"
    by (simp add: example_parents_def example_children_def eval_defs)
  have nonneg: "0 \<le> (1::int)"
    by simp
  have po: "produce_offspring test_rng 2 1 (1/10) [[1, 1/2], [2, 1/2]] [0, 0] 2 [] 0
      = Inr ([[3/2, 1/2], [2, exp (1/10) / 2]], 6)"
    by (simp add: eval_defs)
  have mu: "mutated test_rng 1 (1/10) [2, 1/2] 4 = [2, exp (1/10) / 2]"
    by (simp add: mutated_def test_rng_def)
  note inst = offspring_are_mutated_parents [OF gen nonneg]
  from gen nonneg po mu inst show ?thesis
    by (intro conjI)
qed

lemmas run_state_defs = run_line1_def run_line2_def run_state0_def run_state1_def run_state2_def

lemma example_initial_state: "initial_state 2 1 (0, 1) 1 test_rng 0 = run_state0"
  by (simp add: run_state_defs run_defs eval_defs)

lemma example_generation1:
  "generation maxones_fitness test_rng 2 2 1 0 1 run_state0 = Inr (Next run_state1)"
  by (simp add: run_state_defs eval_defs)

lemma example_generation2:
  "generation maxones_fitness test_rng 2 2 1 0 2 run_state1 = Inr (Next run_state2)"
  by (simp add: run_state_defs eval_defs)

lemma example_run_starts:
  "run_starts maxones_fitness 2 2 1 (0, 1) 1 0 2 test_rng 0 = [run_state0, run_state1]"
  by (simp add: run_starts_def upto_1_2 example_initial_state example_generation1
      example_generation2)

lemma example_run:
  "evolution_strategy_run maxones_fitness 2 2 1 (0, 1) 1 0 2 test_rng 0 = Inr run_state2"
  by (simp add: evolution_strategy_run_def upto_1_2 example_initial_state example_generation1
      example_generation2)

lemma population_initial_state:
  "population (initial_state mu mem_size r sigma ops g) =
     fst (init_population mu mem_size r sigma ops g)"
  by (simp add: initial_state_def split: prod.splits)

lemma initial_state_length:
  "length (population (initial_state mu mem_size r sigma ops g)) = nat mu"
  by (simp add: population_initial_state init_population_length)

text \<open>
  C2 (as the code has it). When \<open>mu \<le> lambda\<close>, the parent population has exactly \<open>mu\<close>
  members at the top of every generation of a run, again exactly \<open>mu\<close> right after every
  truncation selection, and exactly \<open>mu\<close> when the engine returns.
\<close>

theorem population_size_invariant:
  assumes "mu \<le> lambda'"
  shows "(\<forall>st\<in>set (run_starts fitness mu lambda' mem_size r sigma tau max_gens ops g).
            length (population st) = nat mu \<and>
            (\<forall>gen st'. generation fitness ops mu lambda' mem_size tau gen st = Inr (Next st')
               \<longrightarrow> length (population st') = nat mu)) \<and>
         (\<forall>st'. evolution_strategy_run fitness mu lambda' mem_size r sigma tau max_gens ops g
                  = Inr st' \<longrightarrow> length (population st') = nat mu)"
proof -
  let ?st0 = "initial_state mu mem_size r sigma ops g"
  have init: "length (population ?st0) = nat mu"
    by (rule initial_state_length)
  have starts: "\<forall>st\<in>set (run_starts fitness mu lambda' mem_size r sigma tau max_gens ops g).
      length (population st) = nat mu"
    unfolding run_starts_def using assms init by (rule generation_starts_length)
  have step: "length (population st') = nat mu"
    if "length (population st) = nat mu"
      and "generation fitness ops mu lambda' mem_size tau gen st = Inr (Next st')"
    for st st' gen
    using generation_Next_length[OF that(2) that(1)] assms by simp
  have final: "length (population st') = nat mu"
    if "evolution_strategy_run fitness mu lambda' mem_size r sigma tau max_gens ops g = Inr st'"
    for st'
    using es_loop_length[OF assms init] that unfolding evolution_strategy_run_def by blast
  from starts step final show ?thesis by blast
qed

theorem population_size_invariant_witness:
  "(2::int) \<le> 2 \<and>
   run_starts maxones_fitness 2 2 1 (0, 1) 1 0 2 test_rng 0 = [run_state0, run_state1] \<and>
   generation maxones_fitness test_rng 2 2 1 0 1 run_state0 = Inr (Next run_state1) \<and>
   evolution_strategy_run maxones_fitness 2 2 1 (0, 1) 1 0 2 test_rng 0 = Inr run_state2 \<and>
   length (population run_state0) = nat 2 \<and>
   length (population run_state1) = nat 2 \<and>
   length (population run_state2) = nat 2"
proof -
  have le: "(2::int) \<le> 2" by simp
  note inst = population_size_invariant [OF le, of maxones_fitness 1 "(0, 1)" 1 0 2 test_rng 0]
  have mem0: "run_state0 \<in> set (run_starts maxones_fitness 2 2 1 (0, 1) 1 0 2 test_rng 0)"
    by (simp add: example_run_starts)
  have mem1: "run_state1 \<in> set (run_starts maxones_fitness 2 2 1 (0, 1) 1 0 2 test_rng 0)"
    by (simp add: example_run_starts)
  from inst mem0 have l0: "length (population run_state0) = nat 2" by blast
  from inst mem0 example_generation1 have l1: "length (population run_state1) = nat 2" by blast
  from inst example_run have l2: "length (population run_state2) = nat 2" by blast
  from le example_run_starts example_generation1 example_run l0 l1 l2 show ?thesis
    by (intro conjI)
qed

text \<open>
  With \<open>lambda < mu\<close> truncation keeps only \<open>lambda\<close> individuals: a run with \<open>mu = 2\<close>,
  \<open>lambda = 1\<close> and one generation returns a single individual.
\<close>

theorem population_size_counterexample:
  "evolution_strategy maxones_fitness 2 1 1 (0, 1) (1/10) (1/10) 1 test_rng 0
     = Inr [[1/10, 1/10]] \<and>
   length [[1/10, 1/10 :: real]] \<noteq> nat 2"
  by (simp add: run_defs eval_defs)

section \<open>Tournament\<close>

lemma sample_two:
  assumes "sample_ok ops" and "2 \<le> n"
  shows "\<exists>a b. fst (rng_sample ops n 2 g) = [a, b] \<and> a \<noteq> b \<and> a < n \<and> b < n"
proof -
  let ?cs = "fst (rng_sample ops n 2 g)"
  from assms have len: "length ?cs = 2" and d: "distinct ?cs" and s: "set ?cs \<subseteq> {..<n}"
    unfolding sample_ok_def by blast+
  from len obtain a b where ab: "?cs = [a, b]"
    by (metis (no_types, lifting) length_0_conv length_Suc_conv numeral_2_eq_2)
  with d s show ?thesis by auto
qed

lemma tournament_two:
  assumes "sample_ok ops" and "2 \<le> mu" and "length fitnesses = nat mu"
  shows "\<exists>a b. fst (rng_sample ops (nat mu) 2 g) = [a, b] \<and> a \<noteq> b \<and> a < nat mu \<and> b < nat mu \<and>
           tournament ops mu fitnesses g =
             Inr (if fitnesses ! b > fitnesses ! a then b else a,
                  snd (rng_sample ops (nat mu) 2 g))"
proof -
  from assms(2) have "2 \<le> nat mu" by simp
  from sample_two[OF assms(1) this, of g] obtain a b where
    ab: "fst (rng_sample ops (nat mu) 2 g) = [a, b]" "a \<noteq> b" "a < nat mu" "b < nat mu"
    by blast
  have "tournament ops mu fitnesses g =
      Inr (if fitnesses ! b > fitnesses ! a then b else a, snd (rng_sample ops (nat mu) 2 g))"
    using ab assms(2,3)
    by (cases "rng_sample ops (nat mu) 2 g")
       (simp add: tournament_def py_sample_def py_range_length py_max_key_def py_index_nat)
  with ab show ?thesis by blast
qed

lemma run_starts_length:
  assumes "st \<in> set (run_starts fitness mu lambda' mem_size r sigma tau max_gens ops g0)"
      and "mu \<le> lambda' \<or> st = initial_state mu mem_size r sigma ops g0"
  shows "length (population st) = nat mu"
proof (cases "mu \<le> lambda'")
  case True
  have "\<forall>s\<in>set (run_starts fitness mu lambda' mem_size r sigma tau max_gens ops g0).
      length (population s) = nat mu"
    unfolding run_starts_def using True initial_state_length by (rule generation_starts_length)
  with assms(1) show ?thesis by blast
next
  case False
  with assms(2) show ?thesis by (simp add: initial_state_length)
qed

text \<open>
  C4 (as the code has it). With a generator that honours the library's contract for
  \<^verbatim>\<open>sample\<close> and \<open>mu \<ge> 2\<close>, in every generation of a run with \<open>mu \<le> lambda\<close>, and in
  the first generation of any run, the parent list and its fitness list have \<open>mu\<close>
  entries, and a tournament in any generator state makes one call
  \<^verbatim>\<open>sample(range(mu), 2)\<close>, which yields two different parent indices \<open>a\<close>, \<open>b\<close>, and
  selects \<open>b\<close> when its fitness is strictly higher and otherwise \<open>a\<close>, the first sampled
  index, also on an exact tie.
\<close>

theorem tournament_in_generation:
  assumes "sample_ok ops" and "2 \<le> mu"
      and "st \<in> set (run_starts fitness mu lambda' mem_size r sigma tau max_gens ops g0)"
      and "mu \<le> lambda' \<or> st = initial_state mu mem_size r sigma ops g0"
  shows "length (population st) = nat mu \<and>
         length (parent_fitnesses fitness mem_size st) = nat mu \<and>
         (\<forall>g. \<exists>a b.
            fst (rng_sample ops (nat mu) 2 g) = [a, b] \<and> a \<noteq> b \<and>
            a < length (population st) \<and> b < length (population st) \<and>
            tournament ops mu (parent_fitnesses fitness mem_size st) g =
              Inr (if parent_fitnesses fitness mem_size st ! b >
                      parent_fitnesses fitness mem_size st ! a then b else a,
                   snd (rng_sample ops (nat mu) 2 g)))"
proof -
  have len: "length (population st) = nat mu"
    using assms(3,4) by (rule run_starts_length)
  then have flen: "length (parent_fitnesses fitness mem_size st) = nat mu"
    by (simp add: parent_fitnesses_def)
  have "\<exists>a b.
            fst (rng_sample ops (nat mu) 2 g) = [a, b] \<and> a \<noteq> b \<and>
            a < length (population st) \<and> b < length (population st) \<and>
            tournament ops mu (parent_fitnesses fitness mem_size st) g =
              Inr (if parent_fitnesses fitness mem_size st ! b >
                      parent_fitnesses fitness mem_size st ! a then b else a,
                   snd (rng_sample ops (nat mu) 2 g))" for g
    using tournament_two[OF assms(1,2) flen, of g] unfolding len by blast
  with len flen show ?thesis by blast
qed

theorem tournament_in_generation_witness:
  "sample_ok test_rng \<and> (2::int) \<le> 2 \<and>
   run_state1 \<in> set (run_starts maxones_fitness 2 2 1 (0, 1) 1 0 2 test_rng 0) \<and>
   (2::int) \<le> 2 \<and>
   parent_fitnesses maxones_fitness 1 run_state1 = [0, 0] \<and>
   fst (rng_sample test_rng (nat 2) 2 11) = [1, 0] \<and>
   tournament test_rng 2 (parent_fitnesses maxones_fitness 1 run_state1) 11 = Inr (1, 12) \<and>
   length (population run_state1) = nat 2"
proof -
  have le: "(2::int) \<le> 2" by simp
  have mem: "run_state1 \<in> set (run_starts maxones_fitness 2 2 1 (0, 1) 1 0 2 test_rng 0)"
    by (simp add: example_run_starts)
  have fits: "parent_fitnesses maxones_fitness 1 run_state1 = [0, 0]"
    by (simp add: parent_fitnesses_def maxones_fitness_def run_state1_def)
  have smp: "fst (rng_sample test_rng (nat 2) 2 11) = [1, 0]"
    by (simp add: test_rng_def upt_conv_Cons)
  note inst = tournament_in_generation [OF test_rng_sample_ok le mem disjI1 [OF le]]
  from inst have len: "length (population run_state1) = nat 2"
    by (rule conjunct1)
  from inst obtain a b where
    ab: "fst (rng_sample test_rng (nat 2) 2 11) = [a, b]" and
    t: "tournament test_rng 2 (parent_fitnesses maxones_fitness 1 run_state1) 11 =
          Inr (if parent_fitnesses maxones_fitness 1 run_state1 ! b >
                  parent_fitnesses maxones_fitness 1 run_state1 ! a then b else a,
               snd (rng_sample test_rng (nat 2) 2 11))"
    by blast
  from ab smp have "a = 1" "b = 0" by simp_all
  with t have win: "tournament test_rng 2 (parent_fitnesses maxones_fitness 1 run_state1) 11
      = Inr (1, 12)"
    by (simp add: fits test_rng_def)
  from test_rng_sample_ok le mem fits smp win len show ?thesis
    by (intro conjI)
qed

text \<open>
  With \<open>mu = 1\<close> the first tournament of a run raises ValueError; with \<open>lambda < mu\<close> the
  second generation has fewer than \<open>mu\<close> parents and its first tournament raises
  IndexError.
\<close>

theorem tournament_counterexample:
  "initial_state 1 1 (0, 1) 1 test_rng 0
     = \<lparr>population = [[0, 1]], cumulative_evals = 0, rng = 1, printed = []\<rparr> \<and>
   tournament test_rng 1
     (parent_fitnesses maxones_fitness 1 (initial_state 1 1 (0, 1) 1 test_rng 0))
     (rng (initial_state 1 1 (0, 1) 1 test_rng 0)) = Inl ValueError \<and>
   evolution_strategy maxones_fitness 1 1 1 (0, 1) 1 0 1 test_rng 0 = Inl ValueError \<and>
   generation maxones_fitness test_rng 2 1 1 0 1 (initial_state 2 1 (0, 1) 1 test_rng 0)
     = Inr (Next \<lparr>population = [[1, 1]], cumulative_evals = 3, rng = 5,
                   printed = [\<lparr>t_mu = 2, t_lambda = 1, t_tau = 0, t_generation = 1,
                               t_evals = 3, t_max_fitness = 0, t_average = 0,
                               t_diversity = 0\<rparr>]\<rparr>) \<and>
   tournament test_rng 2 [maxones_fitness [1]] 5 = Inl IndexError \<and>
   evolution_strategy maxones_fitness 2 1 1 (0, 1) 1 0 2 test_rng 0 = Inl IndexError"
  by (simp add: run_defs eval_defs parent_fitnesses_def)

section \<open>Truncation selection in a generation\<close>

text \<open>
  C3 (as the code has it). In a generation that goes on to the next, truncation selection
  picks \<open>min mu lambda\<close> different offspring indices (the top \<open>mu\<close> when \<open>lambda \<ge> mu\<close>),
  listed by descending fitness with equal fitness in generation order (a stable sort);
  every selected index ranks before every index left out; the next parent population is
  the offspring at these indices in this order; and when all offspring have the same
  fitness it is the first \<open>mu\<close> offspring in generation order.
\<close>

theorem truncation_in_generation:
  assumes "generation fitness ops mu lambda' mem_size tau gen st = Inr (Next st')" and "0 \<le> mu"
  shows "\<exists>offspring g'.
           produce_offspring ops mu mem_size tau (population st)
             (parent_fitnesses fitness mem_size st) (nat lambda') [] (rng st) = Inr (offspring, g') \<and>
           length offspring = nat lambda' \<and>
           distinct (selected_indices mu (offspring_fitnesses fitness mem_size offspring)) \<and>
           set (selected_indices mu (offspring_fitnesses fitness mem_size offspring))
             \<subseteq> {..<nat lambda'} \<and>
           length (selected_indices mu (offspring_fitnesses fitness mem_size offspring))
             = min (nat mu) (nat lambda') \<and>
           sorted_wrt (ranks_before (offspring_fitnesses fitness mem_size offspring))
             (selected_indices mu (offspring_fitnesses fitness mem_size offspring)) \<and>
           (\<forall>i\<in>set (selected_indices mu (offspring_fitnesses fitness mem_size offspring)).
              \<forall>k<nat lambda'.
                k \<notin> set (selected_indices mu (offspring_fitnesses fitness mem_size offspring))
                \<longrightarrow> ranks_before (offspring_fitnesses fitness mem_size offspring) i k) \<and>
           population st' =
             map ((!) offspring)
               (selected_indices mu (offspring_fitnesses fitness mem_size offspring)) \<and>
           ((\<forall>i<nat lambda'. \<forall>j<nat lambda'.
                offspring_fitnesses fitness mem_size offspring ! i =
                offspring_fitnesses fitness mem_size offspring ! j)
              \<longrightarrow> population st' = take (nat mu) offspring)"
proof -
  from generation_Inr[OF assms(1)] obtain offspring g' new_population where
    po: "produce_offspring ops mu mem_size tau (population st)
           (parent_fitnesses fitness mem_size st) (nat lambda') [] (rng st) = Inr (offspring, g')"
    and tr: "truncation mu offspring (offspring_fitnesses fitness mem_size offspring)
               = Inr new_population"
    and p: "population st' = new_population"
    unfolding offspring_fitnesses_def by fastforce
  from produce_offspring_length[OF po] have len: "length offspring = nat lambda'"
    by simp
  then have flen: "length offspring = length (offspring_fitnesses fitness mem_size offspring)"
    and flen': "length (offspring_fitnesses fitness mem_size offspring) = nat lambda'"
    by (simp_all add: offspring_fitnesses_def)
  note spec = truncation_spec[OF assms(2) flen]
  let ?F = "offspring_fitnesses fitness mem_size offspring"
  have d: "distinct (selected_indices mu ?F)"
    and sub: "set (selected_indices mu ?F) \<subseteq> {..<nat lambda'}"
    and sl: "length (selected_indices mu ?F) = min (nat mu) (nat lambda')"
    and srt: "sorted_wrt (ranks_before ?F) (selected_indices mu ?F)"
    and top: "\<forall>i\<in>set (selected_indices mu ?F). \<forall>k<nat lambda'.
                k \<notin> set (selected_indices mu ?F) \<longrightarrow> ranks_before ?F i k"
    using spec unfolding flen' by blast+
  from spec have "truncation mu offspring ?F = Inr (map ((!) offspring) (selected_indices mu ?F))"
    by (elim conjE)
  then have pm: "population st' = map ((!) offspring) (selected_indices mu ?F)"
    unfolding tr p by (simp only: sum.inject)
  from spec have "(\<forall>i<nat lambda'. \<forall>j<nat lambda'. ?F ! i = ?F ! j) \<longrightarrow>
      truncation mu offspring ?F = Inr (take (nat mu) offspring)"
    unfolding flen' by (elim conjE)
  then have eq: "(\<forall>i<nat lambda'. \<forall>j<nat lambda'. ?F ! i = ?F ! j) \<longrightarrow>
      population st' = take (nat mu) offspring"
    unfolding tr p by (simp only: sum.inject)
  show ?thesis
    by (intro exI[of _ offspring] exI[of _ g'] conjI po len d sub sl srt top pm eq)
qed

theorem truncation_in_generation_witness:
  "generation maxones_fitness test_rng 2 2 1 0 1 run_state0 = Inr (Next run_state1) \<and>
   0 \<le> (2::int) \<and>
   produce_offspring test_rng 2 1 0 (population run_state0)
     (parent_fitnesses maxones_fitness 1 run_state0) (nat 2) [] (rng run_state0)
     = Inr ([[1, 1], [0, 1]], 8) \<and>
   offspring_fitnesses maxones_fitness 1 [[1, 1], [0, 1]] = [0, 0] \<and>
   population run_state1 = take (nat 2) [[1, 1], [0, 1]] \<and>
   selected_indices 2 [1, 3, 3] = [1, 2]"
proof -
  have nonneg: "0 \<le> (2::int)"
    by simp
  have po: "produce_offspring test_rng 2 1 0 (population run_state0)
      (parent_fitnesses maxones_fitness 1 run_state0) (nat 2) [] (rng run_state0)
      = Inr ([[1, 1], [0, 1]], 8)"
    by (simp add: run_state0_def parent_fitnesses_def eval_defs)
  have fits: "offspring_fitnesses maxones_fitness 1 [[1, 1], [0, 1]] = [0, 0]"
    by (simp add: offspring_fitnesses_def maxones_fitness_def)
  have mixed: "selected_indices 2 [1, 3, 3] = [1, 2]"
    by (simp add: selected_indices_def py_sort_desc_def py_slice_to_def enumerate_eq_zip
        upt_conv_Cons eval_nat_numeral)
  from truncation_in_generation [OF example_generation1 nonneg] obtain offspring g' where
    po': "produce_offspring test_rng 2 1 0 (population run_state0)
      (parent_fitnesses maxones_fitness 1 run_state0) (nat 2) [] (rng run_state0)
      = Inr (offspring, g')"
    and eq: "(\<forall>i<nat 2. \<forall>j<nat 2.
                offspring_fitnesses maxones_fitness 1 offspring ! i =
                offspring_fitnesses maxones_fitness 1 offspring ! j)
              \<longrightarrow> population run_state1 = take (nat 2) offspring"
    by blast
  from po po' have off: "offspring = [[1, 1], [0, 1]]"
    by simp
  have "\<forall>i<nat 2. \<forall>j<nat 2.
      offspring_fitnesses maxones_fitness 1 offspring ! i =
      offspring_fitnesses maxones_fitness 1 offspring ! j"
    unfolding off by (simp add: offspring_fitnesses_def maxones_fitness_def nth_Cons')
  with eq have "population run_state1 = take (nat 2) offspring"
    by (rule mp)
  then have tk: "population run_state1 = take (nat 2) [[1, 1], [0, 1]]"
    unfolding off .
  from example_generation1 nonneg po fits tk mixed show ?thesis
    by (intro conjI)
qed

text \<open>With \<open>lambda < mu\<close> fewer than \<open>mu\<close> offspring exist, and all of them are kept.\<close>

theorem truncation_counterexample:
  "generation maxones_fitness test_rng 2 1 1 0 1 run_state0
     = Inr (Next \<lparr>population = [[1, 1]], cumulative_evals = 3, rng = 5,
                   printed = [\<lparr>t_mu = 2, t_lambda = 1, t_tau = 0, t_generation = 1,
                               t_evals = 3, t_max_fitness = 0, t_average = 0,
                               t_diversity = 0\<rparr>]\<rparr>) \<and>
   truncation 2 [[1, 1]] (offspring_fitnesses maxones_fitness 1 [[1, 1]]) = Inr [[1, 1]] \<and>
   length [[1, 1 :: real]] \<noteq> nat 2"
  by (simp add: run_state0_def offspring_fitnesses_def eval_defs)

section \<open>Evaluation count\<close>

lemma generation_evals:
  assumes "generation fitness ops mu lambda' mem_size tau gen st = Inr r"
  shows "cumulative_evals (outcome_state r) = cumulative_evals st + (mu + lambda') \<and>
         (\<exists>line. printed (outcome_state r) = printed st @ [line] \<and>
                  t_evals line = cumulative_evals st + (mu + lambda') \<and>
                  t_generation line = gen)"
  using generation_Inr[OF assms] by (elim exE conjE disjE) auto

lemma generation_accounted:
  assumes "generation fitness ops mu lambda' mem_size tau gen st = Inr r"
      and "evals_accounted mu lambda' st"
  shows "evals_accounted mu lambda' (outcome_state r)"
proof -
  from generation_evals[OF assms(1)] obtain line where
    c: "cumulative_evals (outcome_state r) = cumulative_evals st + (mu + lambda')" and
    p: "printed (outcome_state r) = printed st @ [line]" and
    t: "t_evals line = cumulative_evals st + (mu + lambda')"
    by blast
  from assms(2) have c0: "cumulative_evals st = int (length (printed st)) * (mu + lambda')"
    and old: "\<forall>i<length (printed st). t_evals (printed st ! i) = (int i + 1) * (mu + lambda')"
    by (simp_all add: evals_accounted_def)
  have "t_evals ((printed st @ [line]) ! i) = (int i + 1) * (mu + lambda')"
    if "i < Suc (length (printed st))" for i
  proof (cases "i < length (printed st)")
    case True
    with old show ?thesis by (simp add: nth_append)
  next
    case False
    with that have "i = length (printed st)" by simp
    then show ?thesis using t c0 by (simp add: nth_append algebra_simps)
  qed
  then show ?thesis
    unfolding evals_accounted_def p c using c0 by (simp add: algebra_simps)
qed

lemma es_loop_accounted:
  assumes "es_loop fitness ops mu lambda' mem_size tau gens st = Inr st'"
      and "evals_accounted mu lambda' st"
  shows "evals_accounted mu lambda' st'"
  using assms
proof (induction gens arbitrary: st)
  case Nil
  then show ?case by simp
next
  case (Cons gen gens)
  show ?case
  proof (cases "generation fitness ops mu lambda' mem_size tau gen st")
    case (Inl e)
    with Cons.prems show ?thesis by simp
  next
    case (Inr r)
    from generation_accounted[OF Inr Cons.prems(2)] have acc: "evals_accounted mu lambda' (outcome_state r)" .
    show ?thesis
    proof (cases r)
      case (Break s)
      with Inr Cons.prems acc show ?thesis by simp
    next
      case (Next s)
      with Inr Cons.prems acc Cons.IH[of s] show ?thesis by simp
    qed
  qed
qed

lemma initial_state_fields:
  "cumulative_evals (initial_state mu mem_size r sigma ops g) = 0"
  "printed (initial_state mu mem_size r sigma ops g) = []"
  by (simp_all add: initial_state_def split: prod.splits)

lemma initial_accounted: "evals_accounted mu lambda' (initial_state mu mem_size r sigma ops g)"
  by (simp add: evals_accounted_def initial_state_fields)

text \<open>
  C6 (as the code has it). The cumulative evaluation count starts at 0; every generation
  that reaches its telemetry line, the one that ends the run early included, adds exactly
  \<open>mu + lambda\<close> and prints one line; so at return the count is the number of lines printed
  times \<open>mu + lambda\<close>, and line \<open>i\<close> reports \<open>(i + 1) * (mu + lambda)\<close>.
\<close>

theorem evaluation_count:
  "cumulative_evals (initial_state mu mem_size r sigma ops g) = 0 \<and>
   (\<forall>gen st res. generation fitness ops mu lambda' mem_size tau gen st = Inr res \<longrightarrow>
      cumulative_evals (outcome_state res) = cumulative_evals st + (mu + lambda') \<and>
      length (printed (outcome_state res)) = length (printed st) + 1) \<and>
   (\<forall>st'. evolution_strategy_run fitness mu lambda' mem_size r sigma tau max_gens ops g = Inr st'
      \<longrightarrow> evals_accounted mu lambda' st')"
proof -
  have a: "cumulative_evals (outcome_state res) = cumulative_evals st + (mu + lambda') \<and>
      length (printed (outcome_state res)) = length (printed st) + 1"
    if "generation fitness ops mu lambda' mem_size tau gen st = Inr res" for gen st res
    using generation_evals[OF that] by auto
  have b: "evals_accounted mu lambda' st'"
    if "evolution_strategy_run fitness mu lambda' mem_size r sigma tau max_gens ops g = Inr st'"
    for st'
    using that initial_accounted unfolding evolution_strategy_run_def
    by (rule es_loop_accounted)
  from a b show ?thesis
    by (simp add: initial_state_fields)
qed

theorem evaluation_count_witness:
  "generation maxones_fitness test_rng 2 2 1 0 1 run_state0 = Inr (Next run_state1) \<and>
   cumulative_evals run_state0 = 0 \<and> cumulative_evals run_state1 = 0 + (2 + 2) \<and>
   evolution_strategy_run maxones_fitness 2 2 1 (0, 1) 1 0 2 test_rng 0 = Inr run_state2 \<and>
   evals_accounted 2 2 run_state2 \<and>
   cumulative_evals run_state2 = int (length (printed run_state2)) * (2 + 2) \<and>
   map t_evals (printed run_state2) = [4, 8]"
proof -
  note inst = evaluation_count [of 2 1 "(0, 1)" 1 test_rng 0 maxones_fitness 2 0 2]
  from inst example_generation1 have
    "cumulative_evals (outcome_state (Next run_state1)) = cumulative_evals run_state0 + (2 + 2)"
    by blast
  then have c1: "cumulative_evals run_state1 = 0 + (2 + 2)"
    by (simp add: run_state0_def)
  from inst example_run have acc: "evals_accounted 2 2 run_state2"
    by blast
  then have c2: "cumulative_evals run_state2 = int (length (printed run_state2)) * (2 + 2)"
    by (simp add: evals_accounted_def)
  have c0: "cumulative_evals run_state0 = 0"
    by (simp add: run_state0_def)
  have ts: "map t_evals (printed run_state2) = [4, 8]"
    by (simp add: run_state_defs)
  from example_generation1 c0 c1 example_run acc c2 ts show ?thesis
    by (intro conjI)
qed

text \<open>
  A run that stops early in its first generation: the count goes from 0 to
  \<open>mu + lambda = 5\<close>, not to \<open>mu = 2\<close>, because both additions precede the check of
  line 57.
\<close>

theorem evaluation_count_counterexample:
  "initial_state 2 1 (0, 1) 1 test_rng 0 = run_state0 \<and>
   mean_fitness (\<lambda>member. 1) 2 1 run_state0 = 1 \<and>
   generation (\<lambda>member. 1) test_rng 2 3 1 0 1 run_state0
     = Inr (Break \<lparr>population = [[0, 1], [0, 1]], cumulative_evals = 5, rng = 11,
                    printed = [\<lparr>t_mu = 2, t_lambda = 3, t_tau = 0, t_generation = 1,
                                t_evals = 5, t_max_fitness = 1, t_average = 1,
                                t_diversity = 0\<rparr>]\<rparr>) \<and>
   evolution_strategy_run (\<lambda>member. 1) 2 3 1 (0, 1) 1 0 2 test_rng 0
     = Inr \<lparr>population = [[0, 1], [0, 1]], cumulative_evals = 5, rng = 11,
            printed = [\<lparr>t_mu = 2, t_lambda = 3, t_tau = 0, t_generation = 1,
                        t_evals = 5, t_max_fitness = 1, t_average = 1,
                        t_diversity = 0\<rparr>]\<rparr> \<and>
   (5::int) \<noteq> 0 + 2 \<and> (5::int) = 0 + (2 + 3)"
  by (simp add: run_state0_def mean_fitness_def parent_fitnesses_def run_defs eval_defs)

section \<open>Which operations can fail\<close>

lemma length_mutated: "n < length parent \<Longrightarrow> length (mutated ops n tau parent g) = n + 1"
  by (simp add: mutated_def length_gauss_draws)

lemma produce_offspring_member_length:
  assumes "produce_offspring ops mu mem_size tau parents fs n acc g = Inr (offspring, g')"
      and "0 \<le> mem_size" and "\<forall>c\<in>set acc. length c = nat mem_size + 1"
  shows "\<forall>c\<in>set offspring. length c = nat mem_size + 1"
  using assms(1,3)
proof (induction n arbitrary: acc g)
  case 0
  then show ?case by simp
next
  case (Suc n)
  from Suc.prems(1) obtain idx g1 where t: "tournament ops mu fs g = Inr (idx, g1)"
    by (auto split: sum.splits)
  from Suc.prems(1) t obtain parent where p: "py_index parents (int idx) = Inr parent"
    by (auto split: sum.splits)
  from Suc.prems(1) t p obtain child g2 where
    c: "make_child ops mem_size tau parent g1 = Inr (child, g2)"
    by (auto split: sum.splits)
  from Suc.prems(1) t p c have
    rest: "produce_offspring ops mu mem_size tau parents fs n (acc @ [child]) g2 = Inr (offspring, g')"
    by simp
  from make_child_length[OF c assms(2)] Suc.prems(2)
  have "\<forall>c\<in>set (acc @ [child]). length c = nat mem_size + 1"
    by simp
  with rest show ?case by (rule Suc.IH)
qed

lemma produce_offspring_error:
  assumes "sample_ok ops" and "2 \<le> mu" and "length fs = nat mu" and "length parents = nat mu"
      and "\<forall>m\<in>set parents. nat mem_size < length m" and "0 \<le> mem_size"
      and "produce_offspring ops mu mem_size tau parents fs n acc g = Inl e"
  shows "e = OverflowError"
  using assms(7)
proof (induction n arbitrary: acc g)
  case 0
  then show ?case by simp
next
  case (Suc n)
  from tournament_two[OF assms(1,2,3), of g] obtain w g1 where
    t: "tournament ops mu fs g = Inr (w, g1)" and w: "w < nat mu"
    by (metis (full_types))
  from w assms(4) have p: "py_index parents (int w) = Inr (parents ! w)"
    by (simp add: py_index_nat)
  from w assms(4,5) have len: "nat mem_size < length (parents ! w)"
    by simp
  show ?case
  proof (cases "make_child ops mem_size tau (parents ! w) g1")
    case (Inl e')
    from make_child_error[OF Inl assms(6) len] Suc.prems t p Inl show ?thesis by simp
  next
    case (Inr res)
    obtain child g2 where "res = (child, g2)" by (cases res)
    with Suc.prems t p Inr have
      "produce_offspring ops mu mem_size tau parents fs n (acc @ [child]) g2 = Inl e"
      by simp
    then show ?thesis by (rule Suc.IH)
  qed
qed

lemma py_sq_error: "py_sq x = Inl e \<Longrightarrow> e = OverflowError"
  by (auto simp: py_sq_def split: if_splits)

lemma sq_diffs_error:
  assumes "i < length pop" and "j < length pop"
      and "\<forall>k\<in>set ks. k < length (pop ! i) \<and> k < length (pop ! j)"
      and "sq_diffs pop i j ks = Inl e"
  shows "e = OverflowError"
  using assms(3,4)
proof (induction ks)
  case Nil
  then show ?case by simp
next
  case (Cons k ks)
  then show ?case
    using assms(1,2)
    by (auto simp: py_index_nat split: sum.splits dest: py_sq_error)
qed

lemma gene_dist_error:
  assumes "i < length pop" and "j < length pop"
      and "nat mem_size \<le> length (pop ! i)" and "nat mem_size \<le> length (pop ! j)"
      and "gene_dist pop mem_size i j = Inl e"
  shows "e = OverflowError"
proof -
  from assms(5) have "sq_diffs pop i j (py_range mem_size) = Inl e"
    by (auto simp: gene_dist_def split: sum.splits)
  moreover have "\<forall>k\<in>set (py_range mem_size). k < length (pop ! i) \<and> k < length (pop ! j)"
    using assms(3,4) by (auto simp: py_range_def)
  ultimately show ?thesis
    using assms(1,2) sq_diffs_error by blast
qed

lemma diversity_inner_error:
  assumes "i < length pop" and "\<forall>m\<in>set pop. nat mem_size \<le> length m"
      and "\<forall>j\<in>set js. j < length pop"
      and "diversity_inner pop mem_size i js d = Inl e"
  shows "e = OverflowError"
  using assms(3,4)
proof (induction js arbitrary: d)
  case Nil
  then show ?case by simp
next
  case (Cons j js)
  show ?case
  proof (cases "gene_dist pop mem_size i j")
    case (Inl e')
    moreover from Cons.prems(1) have "j < length pop" by simp
    ultimately have "e' = OverflowError"
      using gene_dist_error[of i pop j mem_size e'] assms(1,2) by simp
    with Inl Cons.prems(2) show ?thesis by simp
  next
    case (Inr v)
    with Cons.prems show ?thesis
      using Cons.IH[of "if v > d then v else d"] by simp
  qed
qed

lemma diversity_outer_error:
  assumes "nat mu \<le> length pop" and "\<forall>m\<in>set pop. nat mem_size \<le> length m"
      and "\<forall>i\<in>set idxs. i < nat mu"
      and "diversity_outer pop mem_size mu idxs d = Inl e"
  shows "e = OverflowError"
  using assms(3,4)
proof (induction idxs arbitrary: d)
  case Nil
  then show ?case by simp
next
  case (Cons i idxs)
  from Cons.prems(1) assms(1) have i: "i < length pop" by simp
  have js: "\<forall>j\<in>set [Suc i..<nat mu]. j < length pop"
    using assms(1) by simp
  show ?case
  proof (cases "diversity_inner pop mem_size i [Suc i..<nat mu] d")
    case (Inl e')
    from diversity_inner_error[OF i assms(2) js Inl] Inl Cons.prems(2) show ?thesis by simp
  next
    case (Inr v)
    with Cons.prems show ?thesis
      using Cons.IH[of v] by simp
  qed
qed

lemma population_diversity_error:
  assumes "nat mu \<le> length pop" and "\<forall>m\<in>set pop. nat mem_size \<le> length m"
      and "population_diversity pop mem_size mu = Inl e"
  shows "e = OverflowError"
  using assms(3) unfolding population_diversity_def
  by (rule diversity_outer_error[OF assms(1,2), rotated]) (simp add: py_range_def)

lemma truncation_total:
  assumes "0 \<le> mu" and "length offspring = length fs"
  shows "truncation mu offspring fs = Inr (map ((!) offspring) (selected_indices mu fs))"
  using truncation_spec[OF assms] by blast

lemma py_max_nonempty: "xs \<noteq> [] \<Longrightarrow> \<exists>m. py_max xs = Inr m"
  by (cases xs) (simp_all add: py_max_def)

lemma generation_error:
  assumes "sample_ok ops" and "2 \<le> mu" and "0 \<le> mem_size"
      and "well_formed mu mem_size (population st)"
      and "generation fitness ops mu lambda' mem_size tau gen st = Inl e"
  shows "e = OverflowError"
proof -
  let ?fits = "map (\<lambda>member. fitness (py_slice_to member mem_size)) (population st)"
  from assms(4) have len: "length (population st) = nat mu"
    and mem: "\<forall>m\<in>set (population st). length m = nat mem_size + 1"
    by (simp_all add: well_formed_def)
  from len have flen: "length ?fits = nat mu" by simp
  from mem have mem1: "\<forall>m\<in>set (population st). nat mem_size < length m"
    and mem2: "\<forall>m\<in>set (population st). nat mem_size \<le> length m"
    by simp_all
  show ?thesis
  proof (cases "produce_offspring ops mu mem_size tau (population st) ?fits
                  (length (py_range lambda')) [] (rng st)")
    case (Inl e')
    from produce_offspring_error[OF assms(1,2) flen len mem1 assms(3) Inl]
    have "e' = OverflowError" .
    with Inl assms(5) show ?thesis
      by (simp add: generation_def Let_def)
  next
    case (Inr res)
    obtain offspring g' where res: "res = (offspring, g')" by (cases res)
    from assms(2) len have ne: "?fits \<noteq> []" by auto
    from py_max_nonempty[OF this] obtain mx where mx: "py_max ?fits = Inr mx"
      by blast
    from assms(2) have mu0: "mu \<noteq> 0" by simp
    show ?thesis
    proof (cases "population_diversity (population st) mem_size mu")
      case (Inl e')
      from len have "nat mu \<le> length (population st)" by simp
      from population_diversity_error[OF this mem2 Inl] have "e' = OverflowError" .
      with Inl Inr res mx mu0 assms(5) show ?thesis
        by (simp add: generation_def Let_def)
    next
      case d: (Inr d)
      from assms(2) have "0 \<le> mu" by simp
      from truncation_total[OF this, of offspring
          "map (\<lambda>member. fitness (py_slice_to member mem_size)) offspring"]
      have "\<exists>np. truncation mu offspring
          (map (\<lambda>member. fitness (py_slice_to member mem_size)) offspring) = Inr np"
        by simp
      with d Inr res mx mu0 assms(5) show ?thesis
        by (auto simp: generation_def Let_def split: if_splits)
    qed
  qed
qed

lemma generation_well_formed:
  assumes "generation fitness ops mu lambda' mem_size tau gen st = Inr (Next st')"
      and "well_formed mu mem_size (population st)" and "mu \<le> lambda'" and "0 \<le> mem_size"
  shows "well_formed mu mem_size (population st')"
proof -
  from assms(2) have len: "length (population st) = nat mu"
    by (simp add: well_formed_def)
  from generation_Next_length[OF assms(1) len] assms(3)
  have l: "length (population st') = nat mu" by simp
  from generation_Inr[OF assms(1)] obtain offspring g' where
    po: "produce_offspring ops mu mem_size tau (population st)
           (parent_fitnesses fitness mem_size st) (nat lambda') [] (rng st) = Inr (offspring, g')"
    and tr: "truncation mu offspring
               (map (\<lambda>member. fitness (py_slice_to member mem_size)) offspring)
             = Inr (population st')"
    by fastforce
  from produce_offspring_member_length[OF po assms(4)]
  have "\<forall>c\<in>set offspring. length c = nat mem_size + 1" by simp
  with truncation_subset[OF tr] have "\<forall>c\<in>set (population st'). length c = nat mem_size + 1"
    by blast
  with l show ?thesis by (simp add: well_formed_def)
qed

lemma es_loop_error:
  assumes "sample_ok ops" and "2 \<le> mu" and "mu \<le> lambda'" and "0 \<le> mem_size"
      and "well_formed mu mem_size (population st)"
      and "es_loop fitness ops mu lambda' mem_size tau gens st = Inl e"
  shows "e = OverflowError"
  using assms(5,6)
proof (induction gens arbitrary: st)
  case Nil
  then show ?case by simp
next
  case (Cons gen gens)
  show ?case
  proof (cases "generation fitness ops mu lambda' mem_size tau gen st")
    case (Inl e')
    from generation_error[OF assms(1,2,4) Cons.prems(1) Inl] Inl Cons.prems(2)
    show ?thesis by simp
  next
    case (Inr r)
    show ?thesis
    proof (cases r)
      case (Break s)
      with Inr Cons.prems(2) show ?thesis by simp
    next
      case (Next s)
      with Inr generation_well_formed[OF _ Cons.prems(1) assms(3,4)]
      have "well_formed mu mem_size (population s)" by simp
      moreover from Next Inr Cons.prems(2)
      have "es_loop fitness ops mu lambda' mem_size tau gens s = Inl e" by simp
      ultimately show ?thesis by (rule Cons.IH)
    qed
  qed
qed

lemma generation_starts_well_formed:
  assumes "mu \<le> lambda'" and "0 \<le> mem_size" and "well_formed mu mem_size (population st)"
  shows "\<forall>s\<in>set (generation_starts fitness ops mu lambda' mem_size tau gens st).
           well_formed mu mem_size (population s)"
  using assms(3)
proof (induction gens arbitrary: st)
  case Nil
  then show ?case by simp
next
  case (Cons gen gens)
  show ?case
  proof (cases "generation fitness ops mu lambda' mem_size tau gen st")
    case (Inl e)
    with Cons.prems show ?thesis by simp
  next
    case (Inr r)
    show ?thesis
    proof (cases r)
      case (Break s)
      with Inr Cons.prems show ?thesis by simp
    next
      case (Next s)
      with Inr generation_well_formed[OF _ Cons.prems assms(1,2)]
      have "well_formed mu mem_size (population s)" by simp
      from Cons.IH[OF this] Inr Next Cons.prems show ?thesis by simp
    qed
  qed
qed

lemma initial_well_formed:
  "well_formed mu mem_size (population (initial_state mu mem_size r sigma ops g))"
  by (simp add: well_formed_def population_initial_state init_population_length
      init_population_member_length)

text \<open>
  C7 (as the code has it). With a generator that honours the library's contract for
  \<^verbatim>\<open>sample\<close>, \<open>2 \<le> mu \<le> lambda\<close> and \<open>N \<ge> 0\<close>, every tournament sample, population
  index, fitness maximum and average, and diversity index of a run succeeds: the engine
  returns normally unless a float operation overflows (\<^verbatim>\<open>math.exp\<close> in the sigma
  update, the square in the diversity), and OverflowError is the only error any
  generation of the run can raise.
\<close>

theorem only_overflow_fails:
  assumes "sample_ok ops" and "2 \<le> mu" and "mu \<le> lambda'" and "0 \<le> mem_size"
  shows "((\<exists>st'. evolution_strategy_run fitness mu lambda' mem_size r sigma tau max_gens ops g
                   = Inr st') \<or>
          evolution_strategy_run fitness mu lambda' mem_size r sigma tau max_gens ops g
            = Inl OverflowError) \<and>
         (\<forall>st\<in>set (run_starts fitness mu lambda' mem_size r sigma tau max_gens ops g).
            \<forall>gen e. generation fitness ops mu lambda' mem_size tau gen st = Inl e
              \<longrightarrow> e = OverflowError)"
proof -
  let ?run = "evolution_strategy_run fitness mu lambda' mem_size r sigma tau max_gens ops g"
  have a: "(\<exists>st'. ?run = Inr st') \<or> ?run = Inl OverflowError"
  proof (cases ?run)
    case (Inl e)
    then have "e = OverflowError"
      unfolding evolution_strategy_run_def
      by (rule es_loop_error[OF assms initial_well_formed])
    with Inl show ?thesis by simp
  next
    case (Inr st')
    then show ?thesis by blast
  qed
  have wf: "\<forall>s\<in>set (run_starts fitness mu lambda' mem_size r sigma tau max_gens ops g).
      well_formed mu mem_size (population s)"
    unfolding run_starts_def
    by (rule generation_starts_well_formed[OF assms(3,4) initial_well_formed])
  have b: "e = OverflowError"
    if "st \<in> set (run_starts fitness mu lambda' mem_size r sigma tau max_gens ops g)"
      and "generation fitness ops mu lambda' mem_size tau gen st = Inl e" for st gen e
    using generation_error[OF assms(1,2,4) _ that(2)] wf that(1) by blast
  from a b show ?thesis by blast
qed

lemma exp_2000: "float_max < exp 2000"
proof -
  have "(2::real) \<le> exp 1"
    using exp_ge_add_one_self[of 1] by simp
  then have "(2::real) ^ 2000 \<le> exp 1 ^ 2000"
    by (rule power_mono) simp
  also have "exp 1 ^ 2000 = exp (2000::real)"
    using exp_of_nat_mult[of 2000 "1::real"] by simp
  finally have "(2::real) ^ 2000 \<le> exp 2000" .
  moreover have "float_max < 2 ^ 2000"
    by (simp add: float_max_def)
  ultimately show ?thesis by simp
qed

theorem only_overflow_fails_witness:
  "sample_ok test_rng \<and> (2::int) \<le> 2 \<and> (0::int) \<le> 1 \<and>
   evolution_strategy_run maxones_fitness 2 2 1 (0, 1) 1 0 2 test_rng 0 = Inr run_state2 \<and>
   evolution_strategy_run maxones_fitness 2 2 1 (0, 1) 1 0 2 test_rng 0 \<noteq> Inl ValueError \<and>
   evolution_strategy_run maxones_fitness 2 2 1 (0, 1) 1 0 2 test_rng 0 \<noteq> Inl IndexError \<and>
   evolution_strategy_run maxones_fitness 2 2 1 (0, 1) 1 0 2 test_rng 0
     \<noteq> Inl ZeroDivisionError"
proof -
  have le: "(2::int) \<le> 2" and nonneg: "(0::int) \<le> 1"
    by simp_all
  note inst = only_overflow_fails [OF test_rng_sample_ok le le nonneg,
      of maxones_fitness "(0, 1)" 1 0 2 0]
  from inst have
    "(\<exists>st'. evolution_strategy_run maxones_fitness 2 2 1 (0, 1) 1 0 2 test_rng 0 = Inr st') \<or>
     evolution_strategy_run maxones_fitness 2 2 1 (0, 1) 1 0 2 test_rng 0 = Inl OverflowError"
    by (rule conjunct1)
  then have n1: "evolution_strategy_run maxones_fitness 2 2 1 (0, 1) 1 0 2 test_rng 0
      \<noteq> Inl ValueError"
    and n2: "evolution_strategy_run maxones_fitness 2 2 1 (0, 1) 1 0 2 test_rng 0
      \<noteq> Inl IndexError"
    and n3: "evolution_strategy_run maxones_fitness 2 2 1 (0, 1) 1 0 2 test_rng 0
      \<noteq> Inl ZeroDivisionError"
    by auto
  from test_rng_sample_ok le nonneg example_run n1 n2 n3 show ?thesis
    by (intro conjI)
qed

text \<open>
  Valid hyperparameters for which the engine fails: \<open>mu = 1\<close> (the sample of two parents
  raises ValueError), \<open>lambda < mu\<close> with two generations (the second generation indexes
  past the shrunken population), and \<open>tau = 2000\<close> (the sigma update overflows).
\<close>

theorem only_overflow_fails_counterexample:
  "evolution_strategy maxones_fitness 1 1 1 (0, 1) 1 (1/10) 1 test_rng 0 = Inl ValueError \<and>
   evolution_strategy maxones_fitness 2 1 1 (0, 1) 1 (1/10) 2 test_rng 0 = Inl IndexError \<and>
   evolution_strategy maxones_fitness 2 2 1 (0, 1) 1 2000 1 test_rng 0 = Inl OverflowError"
  by (simp add: run_defs eval_defs exp_2000)

section \<open>Malformed hyperparameters\<close>

text \<open>
  C8 (as the code has it). The engine checks no hyperparameter. Before the loop it only
  builds the initial population, which cannot fail and has \<open>mu\<close> members (none when
  \<open>mu \<le> 0\<close>), with an evaluation count of 0 and nothing printed; with
  \<open>max_generations \<le> 0\<close> it returns exactly that state; and whenever the engine raises an
  error, the loop has been entered (\<open>max_generations \<ge> 1\<close>).
\<close>

theorem no_configuration_check:
  "(max_gens \<le> 0 \<longrightarrow>
      evolution_strategy_run fitness mu lambda' mem_size r sigma tau max_gens ops g
        = Inr (initial_state mu mem_size r sigma ops g)) \<and>
   cumulative_evals (initial_state mu mem_size r sigma ops g) = 0 \<and>
   printed (initial_state mu mem_size r sigma ops g) = [] \<and>
   length (population (initial_state mu mem_size r sigma ops g)) = nat mu \<and>
   (\<forall>e. evolution_strategy_run fitness mu lambda' mem_size r sigma tau max_gens ops g = Inl e
      \<longrightarrow> 1 \<le> max_gens)"
proof -
  have a: "evolution_strategy_run fitness mu lambda' mem_size r sigma tau max_gens ops g
      = Inr (initial_state mu mem_size r sigma ops g)" if "max_gens \<le> 0"
    using that by (simp add: evolution_strategy_run_def)
  have b: "1 \<le> max_gens"
    if "evolution_strategy_run fitness mu lambda' mem_size r sigma tau max_gens ops g = Inl e"
    for e
  proof (rule ccontr)
    assume "\<not> 1 \<le> max_gens"
    then have "max_gens \<le> 0" by simp
    from a[OF this] that show False by simp
  qed
  from a b show ?thesis
    by (simp add: initial_state_fields initial_state_length)
qed

theorem no_configuration_check_witness:
  "(0::int) \<le> 0 \<and>
   evolution_strategy_run maxones_fitness 2 2 1 (0, 1) 1 0 0 test_rng 0 = Inr run_state0 \<and>
   initial_state 2 1 (0, 1) 1 test_rng 0 = run_state0 \<and>
   evolution_strategy_run maxones_fitness 1 1 1 (0, 1) 1 0 1 test_rng 0 = Inl ValueError \<and>
   (1::int) \<le> 1"
proof -
  have le: "(0::int) \<le> 0" by simp
  note inst = no_configuration_check [of 0 maxones_fitness 2 2 1 "(0, 1)" 1 0 test_rng 0]
  from inst le have
    "evolution_strategy_run maxones_fitness 2 2 1 (0, 1) 1 0 0 test_rng 0
       = Inr (initial_state 2 1 (0, 1) 1 test_rng 0)"
    by blast
  then have run0: "evolution_strategy_run maxones_fitness 2 2 1 (0, 1) 1 0 0 test_rng 0
      = Inr run_state0"
    by (simp only: example_initial_state)
  have err: "evolution_strategy_run maxones_fitness 1 1 1 (0, 1) 1 0 1 test_rng 0
      = Inl ValueError"
    by (simp add: run_defs eval_defs)
  with no_configuration_check [of 1 maxones_fitness 1 1 1 "(0, 1)" 1 0 test_rng 0]
  have one: "(1::int) \<le> 1" by blast
  from le run0 example_initial_state err one show ?thesis
    by (intro conjI)
qed

text \<open>
  Malformed calls that return normally: \<open>max_generations = 0\<close>; an inverted gene range
  with a negative \<open>tau\<close>; and every hyperparameter zero.
\<close>

theorem no_configuration_check_counterexample:
  "evolution_strategy maxones_fitness 2 2 1 (0, 1) 1 (1/10) 0 test_rng 0
     = Inr [[0, 1], [0, 1]] \<and>
   evolution_strategy maxones_fitness 2 2 1 (1, 0) 1 (- 1) 1 test_rng 0
     = Inr [[2, 1], [1, exp (- 1)]] \<and>
   evolution_strategy maxones_fitness 0 0 0 (0, 0) 0 0 0 test_rng 0 = Inr []"
  by (simp add: run_defs eval_defs)

section \<open>Termination\<close>

lemma generation_starts_length_le:
  "length (generation_starts fitness ops mu lambda' mem_size tau gens st) \<le> length gens"
  by (induction gens arbitrary: st) (auto split: sum.splits outcome.splits)

lemma es_loop_printed_le:
  "es_loop fitness ops mu lambda' mem_size tau gens st = Inr st'
     \<Longrightarrow> length (printed st') \<le> length (printed st) + length gens"
proof (induction gens arbitrary: st)
  case Nil
  then show ?case by simp
next
  case (Cons gen gens)
  from Cons.prems obtain r where r: "generation fitness ops mu lambda' mem_size tau gen st = Inr r"
    by (auto split: sum.splits)
  from generation_evals[OF r] have p: "length (printed (outcome_state r)) = length (printed st) + 1"
    by auto
  show ?case
  proof (cases r)
    case (Break s)
    with r Cons.prems p show ?thesis by simp
  next
    case (Next s)
    with r Cons.prems have "es_loop fitness ops mu lambda' mem_size tau gens s = Inr st'" by simp
    from Cons.IH[OF this] p Next show ?thesis by simp
  qed
qed

lemma es_loop_from_start:
  assumes "k < length (generation_starts fitness ops mu lambda' mem_size tau gens st0)"
  shows "es_loop fitness ops mu lambda' mem_size tau gens st0 =
           es_loop fitness ops mu lambda' mem_size tau (drop k gens)
             (generation_starts fitness ops mu lambda' mem_size tau gens st0 ! k) \<and>
         generation_starts fitness ops mu lambda' mem_size tau (drop k gens)
             (generation_starts fitness ops mu lambda' mem_size tau gens st0 ! k) =
           drop k (generation_starts fitness ops mu lambda' mem_size tau gens st0)"
  using assms
proof (induction gens arbitrary: st0 k)
  case Nil
  then show ?case by simp
next
  case (Cons gen gens)
  show ?case
  proof (cases k)
    case 0
    then show ?thesis by simp
  next
    case (Suc k')
    with Cons.prems obtain s where
      g: "generation fitness ops mu lambda' mem_size tau gen st0 = Inr (Next s)" and
      k': "k' < length (generation_starts fitness ops mu lambda' mem_size tau gens s)"
      by (auto split: sum.splits outcome.splits)
    from Cons.IH[OF k'] g Suc show ?thesis by simp
  qed
qed

lemma generation_mean_break:
  assumes "generation fitness ops mu lambda' mem_size tau gen st = Inr res"
      and "mean_fitness fitness mu mem_size st > 99 / 100"
  shows "\<exists>s. res = Break s \<and> population s = population st"
  using generation_Inr[OF assms(1)] assms(2) by auto

lemma drop_upto: "k < nat n \<Longrightarrow> drop k [1..n] = (1 + int k) # drop (Suc k) [1..n]"
proof -
  assume k: "k < nat n"
  then have "k < length [1..n]" by simp
  then have "drop k [1..n] = [1..n] ! k # drop (Suc k) [1..n]"
    by (rule Cons_nth_drop_Suc[symmetric])
  moreover from k have "[1..n] ! k = 1 + int k"
    by (intro nth_upto) simp
  ultimately show ?thesis by simp
qed

lemma early_stop_at:
  assumes "k < length (run_starts fitness mu lambda' mem_size r sigma tau max_gens ops g)"
      and "st = run_starts fitness mu lambda' mem_size r sigma tau max_gens ops g ! k"
      and "mean_fitness fitness mu mem_size st > 99 / 100"
      and "generation fitness ops mu lambda' mem_size tau (1 + int k) st = Inr res"
  shows "(\<exists>st'. res = Break st' \<and>
            evolution_strategy_run fitness mu lambda' mem_size r sigma tau max_gens ops g
              = Inr st' \<and>
            population st' = population st) \<and>
         length (run_starts fitness mu lambda' mem_size r sigma tau max_gens ops g) = k + 1"
proof -
  let ?st0 = "initial_state mu mem_size r sigma ops g"
  let ?starts = "generation_starts fitness ops mu lambda' mem_size tau [1..max_gens] ?st0"
  have bound: "length ?starts \<le> nat max_gens"
    using generation_starts_length_le[of fitness ops mu lambda' mem_size tau "[1..max_gens]" ?st0]
    by simp
  from assms(1) have k: "k < length ?starts"
    by (simp add: run_starts_def)
  with bound have "k < nat max_gens" by simp
  then have dr: "drop k [1..max_gens] = (1 + int k) # drop (Suc k) [1..max_gens]"
    by (rule drop_upto)
  from assms(2) have st: "?starts ! k = st"
    by (simp add: run_starts_def)
  from generation_mean_break[OF assms(4,3)] obtain st' where
    res: "res = Break st'" and pop: "population st' = population st"
    by blast
  from es_loop_from_start[OF k] have
    run: "es_loop fitness ops mu lambda' mem_size tau [1..max_gens] ?st0 =
            es_loop fitness ops mu lambda' mem_size tau (drop k [1..max_gens]) st"
    and starts: "generation_starts fitness ops mu lambda' mem_size tau (drop k [1..max_gens]) st
            = drop k ?starts"
    unfolding st by simp_all
  from run assms(4) res have
    r: "evolution_strategy_run fitness mu lambda' mem_size r sigma tau max_gens ops g = Inr st'"
    unfolding evolution_strategy_run_def dr by simp
  from starts assms(4) res have "drop k ?starts = [st]"
    unfolding dr by simp
  then have "length (drop k ?starts) = 1" by simp
  with k have len: "length ?starts = k + 1" by simp
  from res r pop len show ?thesis
    by (simp add: run_starts_def)
qed

text \<open>
  C5 (as the code has it). A run enters at most \<open>max_generations\<close> generations and prints
  at most that many lines. If generation \<open>k + 1\<close> of a run finds a mean parent fitness
  above 0.99 and raises no error before its check, it leaves the loop: the engine returns
  the parent population of that generation unchanged, the offspring made in it are
  dropped, and it is the last generation of the run.
\<close>

theorem early_stop:
  "length (run_starts fitness mu lambda' mem_size r sigma tau max_gens ops g) \<le> nat max_gens \<and>
   (\<forall>st'. evolution_strategy_run fitness mu lambda' mem_size r sigma tau max_gens ops g = Inr st'
      \<longrightarrow> length (printed st') \<le> nat max_gens) \<and>
   (\<forall>k st res.
      k < length (run_starts fitness mu lambda' mem_size r sigma tau max_gens ops g) \<and>
      st = run_starts fitness mu lambda' mem_size r sigma tau max_gens ops g ! k \<and>
      mean_fitness fitness mu mem_size st > 99 / 100 \<and>
      generation fitness ops mu lambda' mem_size tau (1 + int k) st = Inr res
      \<longrightarrow> (\<exists>st'. res = Break st' \<and>
             evolution_strategy_run fitness mu lambda' mem_size r sigma tau max_gens ops g
               = Inr st' \<and>
             population st' = population st) \<and>
          length (run_starts fitness mu lambda' mem_size r sigma tau max_gens ops g) = k + 1)"
proof -
  have a: "length (run_starts fitness mu lambda' mem_size r sigma tau max_gens ops g)
      \<le> nat max_gens"
    unfolding run_starts_def
    using generation_starts_length_le[of fitness ops mu lambda' mem_size tau "[1..max_gens]"
        "initial_state mu mem_size r sigma ops g"]
    by simp
  have b: "length (printed st') \<le> nat max_gens"
    if "evolution_strategy_run fitness mu lambda' mem_size r sigma tau max_gens ops g = Inr st'"
    for st'
    using es_loop_printed_le[OF that[unfolded evolution_strategy_run_def]]
    by (simp add: initial_state_fields)
  from a b early_stop_at[of _ fitness mu lambda' mem_size r sigma tau max_gens ops g]
  show ?thesis by blast
qed

theorem early_stop_witness:
  "run_starts (\<lambda>member. 1) 2 3 1 (0, 1) 1 0 2 test_rng 0 = [run_state0] \<and>
   mean_fitness (\<lambda>member. 1) 2 1 run_state0 = 1 \<and>
   generation (\<lambda>member. 1) test_rng 2 3 1 0 (1 + int 0) run_state0 = Inr (Break stop_state) \<and>
   evolution_strategy_run (\<lambda>member. 1) 2 3 1 (0, 1) 1 0 2 test_rng 0 = Inr stop_state \<and>
   population stop_state = population run_state0 \<and>
   length (run_starts (\<lambda>member. 1) 2 3 1 (0, 1) 1 0 2 test_rng 0) = 0 + 1 \<and>
   length (printed stop_state) \<le> nat 2"
proof -
  have gen: "generation (\<lambda>member. 1) test_rng 2 3 1 0 (1 + int 0) run_state0
      = Inr (Break stop_state)"
    by (simp add: run_state0_def stop_state_def eval_defs)
  have starts: "run_starts (\<lambda>member. 1) 2 3 1 (0, 1) 1 0 2 test_rng 0 = [run_state0]"
    using gen by (simp add: run_starts_def upto_1_2 example_initial_state)
  have mean: "mean_fitness (\<lambda>member. 1) 2 1 run_state0 = 1"
    by (simp add: mean_fitness_def parent_fitnesses_def run_state0_def)
  note inst = early_stop [of "\<lambda>member. 1" 2 3 1 "(0, 1)" 1 0 2 test_rng 0]
  have k: "0 < length (run_starts (\<lambda>member. 1) 2 3 1 (0, 1) 1 0 2 test_rng 0)"
    and st: "run_state0 = run_starts (\<lambda>member. 1) 2 3 1 (0, 1) 1 0 2 test_rng 0 ! 0"
    and hi: "mean_fitness (\<lambda>member. 1) 2 1 run_state0 > 99 / 100"
    by (simp_all add: starts mean)
  from inst k st hi gen have
    "(\<exists>st'. Break stop_state = Break st' \<and>
        evolution_strategy_run (\<lambda>member. 1) 2 3 1 (0, 1) 1 0 2 test_rng 0 = Inr st' \<and>
        population st' = population run_state0) \<and>
     length (run_starts (\<lambda>member. 1) 2 3 1 (0, 1) 1 0 2 test_rng 0) = 0 + 1"
    by blast
  then have run: "evolution_strategy_run (\<lambda>member. 1) 2 3 1 (0, 1) 1 0 2 test_rng 0
      = Inr stop_state"
    and pop: "population stop_state = population run_state0"
    and len: "length (run_starts (\<lambda>member. 1) 2 3 1 (0, 1) 1 0 2 test_rng 0) = 0 + 1"
    by auto
  from inst run have pr: "length (printed stop_state) \<le> nat 2"
    by blast
  from starts mean gen run pop len pr show ?thesis
    by (intro conjI)
qed

text \<open>
  With \<open>mu = 1\<close> the mean fitness of the first generation is above 0.99, yet the engine
  does not return: the tournament of that generation raises ValueError before the check.
\<close>

theorem early_stop_counterexample:
  "run_starts (\<lambda>member. 1) 1 1 1 (0, 1) 1 0 1 test_rng 0
     = [\<lparr>population = [[0, 1]], cumulative_evals = 0, rng = 1, printed = []\<rparr>] \<and>
   mean_fitness (\<lambda>member. 1) 1 1
     \<lparr>population = [[0, 1]], cumulative_evals = 0, rng = 1 :: nat, printed = []\<rparr> = 1 \<and>
   evolution_strategy (\<lambda>member. 1) 1 1 1 (0, 1) 1 0 1 test_rng 0 = Inl ValueError"
  by (simp add: mean_fitness_def parent_fitnesses_def run_defs eval_defs)

(*MORE*)

end
